theory Spec2Isabelle
  imports Main "HOL-Library.Multiset"
begin

section \<open>Strings\<close>

text \<open>
  JavaScript strings are modelled as \<^typ>\<open>string\<close>.  The helpers below are the
  methods of \<open>String.prototype\<close> that the build script calls.
\<close>

definition startsWith :: "string \<Rightarrow> string \<Rightarrow> bool" where
  "startsWith s p = (take (length p) s = p)"

text \<open>\<open>s.includes(sub)\<close>: \<open>sub\<close> occurs in \<open>s\<close> as a contiguous substring.\<close>

fun includes_str :: "string \<Rightarrow> string \<Rightarrow> bool" where
  "includes_str [] sub = (sub = [])"
| "includes_str (c # s) sub = (startsWith (c # s) sub \<or> includes_str s sub)"

text \<open>
  \<open>s.replace(pat, rep)\<close> with a string pattern: only the first occurrence is replaced.
  (The replacement used by the script, \<open>'dist'\<close>, has no \<open>$\<close> pattern.)
\<close>

fun replace_first :: "string \<Rightarrow> string \<Rightarrow> string \<Rightarrow> string" where
  "replace_first [] pat rep = (if pat = [] then rep else [])"
| "replace_first (c # s) pat rep =
     (if startsWith (c # s) pat then rep @ drop (length pat) (c # s)
      else c # replace_first s pat rep)"

text \<open>\<open>s.split(c)\<close> for a one-character separator, and \<open>xs.join(sep)\<close>.\<close>

fun split_chr :: "char \<Rightarrow> string \<Rightarrow> string list" where
  "split_chr c [] = [[]]"
| "split_chr c (x # xs) =
     (if x = c then [] # split_chr c xs
      else (case split_chr c xs of [] \<Rightarrow> [[x]] | s # ss \<Rightarrow> (x # s) # ss))"

fun join_with :: "string \<Rightarrow> string list \<Rightarrow> string" where
  "join_with sep [] = []"
| "join_with sep [x] = x"
| "join_with sep (x # y # ys) = x @ sep @ join_with sep (y # ys)"

section \<open>The \<open>path\<close> module (POSIX flavour)\<close>

text \<open>
  The script imports \<open>join\<close>, \<open>dirname\<close>, \<open>relative\<close> and \<open>path.parse\<close> from the
  platform's \<open>path\<close> module.  That module is not part of the repository; it is modelled
  here after its POSIX implementation (\<open>path.sep = '/'\<close>).  Paths are processed
  segment by segment where the library scans characters; the results are the same.
\<close>

definition isAbsolute :: "string \<Rightarrow> bool" where
  "isAbsolute p = (p \<noteq> [] \<and> hd p = CHR ''/'')"

text \<open>
  \<open>normalizeString\<close>: empty and \<open>.\<close> segments are dropped; \<open>..\<close> removes the last
  kept segment unless there is none or it is itself \<open>..\<close>, in which case it is kept
  when \<open>allowAboveRoot\<close> and dropped otherwise.
\<close>

fun normalizeSegs :: "bool \<Rightarrow> string list \<Rightarrow> string list \<Rightarrow> string list" where
  "normalizeSegs allowAboveRoot res [] = res"
| "normalizeSegs allowAboveRoot res (s # ss) =
     (if s = [] \<or> s = ''.'' then normalizeSegs allowAboveRoot res ss
      else if s = ''..'' then
        (if res \<noteq> [] \<and> last res \<noteq> ''..'' then normalizeSegs allowAboveRoot (butlast res) ss
         else if allowAboveRoot then normalizeSegs allowAboveRoot (res @ [''..'']) ss
         else normalizeSegs allowAboveRoot res ss)
      else normalizeSegs allowAboveRoot (res @ [s]) ss)"

definition normalizeString :: "string \<Rightarrow> bool \<Rightarrow> string" where
  "normalizeString p allowAboveRoot =
     join_with ''/'' (normalizeSegs allowAboveRoot [] (split_chr CHR ''/'' p))"

definition normalize :: "string \<Rightarrow> string" where
  "normalize p =
     (if p = [] then ''.''
      else
        let isAbs = isAbsolute p;
            trailingSeparator = (last p = CHR ''/'');
            q = normalizeString p (\<not> isAbs);
            q1 = (if q = [] then (if isAbs then [] else if trailingSeparator then ''./'' else ''.'')
                  else if trailingSeparator then q @ ''/'' else q)
        in if isAbs then ''/'' @ q1 else q1)"

text \<open>\<open>join(...args)\<close>: the non-empty arguments joined by \<open>/\<close>, then normalised.\<close>

definition join :: "string list \<Rightarrow> string" where
  "join args =
     (let parts = filter (\<lambda>a. a \<noteq> []) args
      in if parts = [] then ''.'' else normalize (join_with ''/'' parts))"

text \<open>
  \<open>dirname(p)\<close>: scanning from the right and never looking at the first character,
  skip the trailing slashes, then the last segment; the result is what stands before
  the slash reached.
\<close>

definition dirname :: "string \<Rightarrow> string" where
  "dirname p =
     (if p = [] then ''.''
      else
        let hasRoot = (hd p = CHR ''/'');
            r = dropWhile (\<lambda>c. c \<noteq> CHR ''/'') (dropWhile (\<lambda>c. c = CHR ''/'') (rev (tl p)))
        in if r = [] then (if hasRoot then ''/'' else ''.'')
           else if hasRoot \<and> length r = 1 then ''//''
           else take (length r) p)"

text \<open>
  \<open>path.parse(p)\<close>.  \<open>startPart\<close> is the index where the last segment starts (0 when
  no separator precedes it), and the extension starts at the last dot of the base
  unless the base has no dot, the dot is its first character, or the base is \<open>..\<close>
  (a test the library makes against \<open>startPart\<close>).
\<close>

record ParsedPath =
  p_root :: string
  p_dir :: string
  p_base :: string
  p_ext :: string
  p_name :: string

definition parse :: "string \<Rightarrow> ParsedPath" where
  "parse p =
     (if p = [] then \<lparr>p_root = [], p_dir = [], p_base = [], p_ext = [], p_name = []\<rparr>
      else
        let isAbs = (hd p = CHR ''/'');
            start = (if isAbs then 1 else 0);
            rb = dropWhile (\<lambda>c. c = CHR ''/'') (rev (drop start p));
            b = rev (takeWhile (\<lambda>c. c \<noteq> CHR ''/'') rb);
            rest = dropWhile (\<lambda>c. c \<noteq> CHR ''/'') rb;
            startPart = (if rest = [] then 0 else start + length rest);
            baseStart = (if startPart = 0 \<and> isAbs then 1 else startPart);
            d = (if startPart > 0 then take (startPart - 1) p
                 else if isAbs then ''/'' else []);
            afterDot = takeWhile (\<lambda>c. c \<noteq> CHR ''.'') (rev b);
            hasDot = (CHR ''.'' \<in> set b);
            startDot = baseStart + (length b - length afterDot - 1);
            endIdx = baseStart + length b;
            preDotState = (if startDot = baseStart then (0::int)
                           else if hd b = CHR ''.'' then 1 else -1);
            noExt = (\<not> hasDot \<or> preDotState = 0 \<or>
                     (preDotState = 1 \<and> startDot = endIdx - 1 \<and> startDot = startPart + 1))
        in if b = [] then \<lparr>p_root = (if isAbs then ''/'' else []), p_dir = d,
                              p_base = [], p_ext = [], p_name = []\<rparr>
           else if noExt then \<lparr>p_root = (if isAbs then ''/'' else []), p_dir = d,
                              p_base = b, p_ext = [], p_name = b\<rparr>
           else \<lparr>p_root = (if isAbs then ''/'' else []), p_dir = d, p_base = b,
                  p_ext = drop (length b - length afterDot - 1) b,
                  p_name = take (length b - length afterDot - 1) b\<rparr>)"

text \<open>
  \<open>resolve\<close> of one path against the process's working directory, and
  \<open>relative(from, to)\<close>: both paths are resolved, their common leading segments are
  dropped, and one \<open>..\<close> is emitted for each remaining segment of \<open>from\<close>.
\<close>

definition resolve :: "string \<Rightarrow> string \<Rightarrow> string" where
  "resolve cwd p =
     (let full = (if isAbsolute p then p else if p = [] then cwd else cwd @ ''/'' @ p)
      in ''/'' @ normalizeString full (\<not> isAbsolute full))"

fun dropCommon :: "string list \<Rightarrow> string list \<Rightarrow> string list \<times> string list" where
  "dropCommon (x # xs) (y # ys) = (if x = y then dropCommon xs ys else (x # xs, y # ys))"
| "dropCommon xs ys = (xs, ys)"

definition relative :: "string \<Rightarrow> string \<Rightarrow> string \<Rightarrow> string" where
  "relative cwd from to =
     (if from = to then []
      else
        let f = resolve cwd from; t = resolve cwd to
        in if f = t then []
           else
             let (fs, ts) = dropCommon (filter (\<lambda>s. s \<noteq> []) (split_chr CHR ''/'' f))
                                       (filter (\<lambda>s. s \<noteq> []) (split_chr CHR ''/'' t))
             in join_with ''/'' (replicate (length fs) ''..'' @ ts))"

text \<open>
  \<open>slash(p)\<close> (the \<open>slash\<close> package, in the version that a CommonJS script can
  load): backslashes become forward slashes, except in an extended-length path (one
  that starts with \<open>\\?\\<close>) and in a path that has a character above U+0080, which
  are returned as they are.  A character of \<^typ>\<open>string\<close> stands for the code unit with
  its code.
\<close>

definition slash :: "string \<Rightarrow> string" where
  "slash p =
     (let isExtendedLengthPath = startsWith p [CHR 0x5C, CHR 0x5C, CHR ''?'', CHR 0x5C];
          hasNonAscii = list_ex (\<lambda>c. (of_char c :: nat) > 0x80) p
      in if isExtendedLengthPath \<or> hasNonAscii then p
         else map (\<lambda>c. if c = CHR 0x5C then CHR ''/'' else c) p)"

section \<open>Types of the build script\<close>

datatype Formats = esm | cjs

datatype Platform = node | browser | neutral

text \<open>
  The \<open>bundler\<close> section of the manifest.  A field is \<open>None\<close> when the manifest
  does not have it (\<open>undefined\<close> after destructuring).
\<close>

record BundlerConfig =
  bc_entries :: "string list option"
  bc_externals :: "string list option"
  bc_noExternal :: "string list option"
  bc_platform :: "Platform option"
  bc_pre :: "string option"
  bc_post :: "string option"
  bc_formats :: "Formats list option"

text \<open>
  The manifest.  A dependency object is the list of its own keys, in enumeration
  order, each with its version range.
\<close>

record PackageJson =
  pj_name :: string
  pj_dependencies :: "(string \<times> string) list option"
  pj_peerDependencies :: "(string \<times> string) list option"
  pj_bundler :: BundlerConfig

text \<open>The options object of esbuild that the \<open>esbuildOptions\<close> callback mutates.\<close>

record ESBuildOverrides =
  c_logLevel :: string
  c_legalComments :: string
  c_minifyWhitespace :: bool
  c_minifyIdentifiers :: bool
  c_minifySyntax :: bool

record BuildOptions = ESBuildOverrides +
  c_conditions :: "string list"
  c_platform :: Platform

datatype Pattern = Str string | RegExp string

datatype Plugin = aliasPlugin "(string \<times> string) list"

record DtsOptions =
  d_entry :: "string list"
  d_resolve :: bool

record DtsConfigSection =
  dc_tsconfig :: string
  dc_dts :: DtsOptions

text \<open>
  The options passed to the bundler's \<open>build\<close>.  A field that a call does not set is
  \<open>None\<close>; \<open>o_banner\<close> is the \<open>js\<close> member of the banner object.
\<close>

record Options =
  o_noExternal :: "Pattern list"
  o_silent :: bool
  o_treeshake :: "bool option"
  o_entry :: "string list"
  o_shims :: bool
  o_watch :: bool
  o_outDir :: string
  o_sourcemap :: bool
  o_format :: "Formats list"
  o_target :: "string list"
  o_clean :: bool
  o_dts :: "DtsOptions option"
  o_tsconfig :: "string option"
  o_platform :: Platform
  o_esbuildPlugins :: "Plugin list option"
  o_external :: "string list"
  o_banner :: "string option option"
  o_esbuildOptions :: "BuildOptions \<Rightarrow> BuildOptions"

section \<open>Effects\<close>

text \<open>
  A value that a promise rejects with: an instance of \<open>Error\<close>, with its \<open>stack\<close>,
  or any other value.
\<close>

datatype Thrown = Error string | NonError

text \<open>
  The asynchronous operations a task awaits, one after the other: a bundler build,
  \<open>fs.ensureFile(path)\<close>, \<open>fs.writeFile(path, content, {encoding})\<close>.
\<close>

datatype Op = Build Options | EnsureFile string | WriteFile string string string

type_synonym Task = "Op list"

datatype Event =
    ReadJson string
  | ExecStart string string "bool option"
  | ExecEnd string string "bool option"
  | ExecFailed string string "bool option"
  | EmptyDir string
  | PathExists string
  | Dispatched nat Task
  | Done nat Op
  | Failed nat Op
  | ConsoleLog string
  | ConsoleError string

text \<open>
  The world the script runs in: the process (\<open>process.cwd()\<close>, an absolute path;
  \<open>process.argv\<close>; \<open>process.env.CI\<close>; \<open>__dirname\<close>), the outcome of each file-system
  call, external process and build (\<open>None\<close>: fulfilled), \<open>require.resolve\<close>, and the
  order in which pending operations complete (\<open>w_pick\<close> chooses among the pending
  tasks).  \<open>w_readJson\<close> gives the manifest as \<open>run\<close> destructures it; its failure
  stands for an unreadable file, invalid JSON and a manifest without \<open>bundler\<close> section
  (where the destructuring throws).
\<close>

record World =
  w_cwd :: string
  w_argv :: "string list"
  w_env_CI :: "string option"
  w_dirname :: string
  w_readJson :: "string \<Rightarrow> Thrown + PackageJson"
  w_pathExists :: "string \<Rightarrow> bool"
  w_emptyDir :: "string \<Rightarrow> Thrown option"
  w_exec :: "string \<Rightarrow> string \<Rightarrow> bool option \<Rightarrow> Thrown option"
  w_perform :: "Op \<Rightarrow> Thrown option"
  w_requireResolve :: "string \<Rightarrow> string"
  w_pick :: "(nat \<times> Task) list \<Rightarrow> nat"

type_synonym 'a Async = "Event list \<times> (Thrown + 'a)"

text \<open>\<open>await m\<close>, then \<open>f\<close> on its value; a rejection ends the sequence.\<close>

definition andThen :: "'a Async \<Rightarrow> ('a \<Rightarrow> 'b Async) \<Rightarrow> 'b Async" where
  "andThen m f =
     (case m of
        (tr, Inl e) \<Rightarrow> (tr, Inl e)
      | (tr, Inr x) \<Rightarrow> (case f x of (tr', r) \<Rightarrow> (tr @ tr', r)))"

definition skip :: "unit Async" where
  "skip = ([], Inr ())"

definition readJson :: "World \<Rightarrow> string \<Rightarrow> PackageJson Async" where
  "readJson w file = ([ReadJson file], w_readJson w file)"

definition emptyDir :: "World \<Rightarrow> string \<Rightarrow> unit Async" where
  "emptyDir w d =
     ([EmptyDir d], case w_emptyDir w d of None \<Rightarrow> Inr () | Some e \<Rightarrow> Inl e)"

definition pathExists :: "World \<Rightarrow> string \<Rightarrow> bool Async" where
  "pathExists w file = ([PathExists file], Inr (w_pathExists w file))"

text \<open>
  Modelled from the spec: \<open>exec\<close> of \<open>../utils/exec\<close>, which is not among the sources.
  It runs the command as an external process in the given directory; its promise is
  fulfilled when the process has completed and rejected when the process fails.
\<close>

definition exec :: "World \<Rightarrow> string \<Rightarrow> string \<Rightarrow> bool option \<Rightarrow> unit Async" where
  "exec w command d debug =
     (case w_exec w command d debug of
        None \<Rightarrow> ([ExecStart command d debug, ExecEnd command d debug], Inr ())
      | Some e \<Rightarrow> ([ExecStart command d debug, ExecFailed command d debug], Inl e))"

section \<open>The build script\<close>

text \<open>
  \<open>nodeInternals\<close>: the reducer calls \<open>acc.concat([i, `node:${i}`])\<close>, which returns
  a new array and leaves \<open>acc\<close> as it is, and then returns \<open>acc\<close>.
\<close>

definition concat_js :: "'a list \<Rightarrow> 'a list \<Rightarrow> 'a list" where
  "concat_js xs ys = xs @ ys"

definition nodeInternals :: "string list" where
  "nodeInternals =
     foldl (\<lambda>acc i. let unused = concat_js acc [i, ''node:'' @ i] in acc) []
       [''assert'', ''buffer'', ''child_process'', ''cluster'', ''crypto'', ''dgram'', ''dns'',
        ''domain'', ''events'', ''fs'', ''http'', ''https'', ''net'', ''os'', ''path'',
        ''punycode'', ''querystring'', ''readline'', ''stream'', ''string_decoder'', ''tls'',
        ''tty'', ''url'', ''util'', ''v8'', ''vm'', ''zlib'']"

text \<open>\<open>hasFlag\<close>: \<open>!!flags.find((s) => s.startsWith(`--${name}`))\<close>.\<close>

definition hasFlag :: "string list \<Rightarrow> string \<Rightarrow> bool" where
  "hasFlag flags nm =
     (case find (\<lambda>s. startsWith s (''--'' @ nm)) flags of
        None \<Rightarrow> False
      | Some s \<Rightarrow> s \<noteq> [])"

definition getESBuildOptions :: "bool \<Rightarrow> ESBuildOverrides" where
  "getESBuildOptions optimized =
     \<lparr>c_logLevel = ''error'',
      c_legalComments = ''none'',
      c_minifyWhitespace = optimized,
      c_minifyIdentifiers = False,
      c_minifySyntax = optimized\<rparr>"

text \<open>\<open>Object.assign(c, getESBuildOptions(optimized))\<close>.\<close>

definition assign :: "BuildOptions \<Rightarrow> ESBuildOverrides \<Rightarrow> BuildOptions" where
  "assign c v =
     c\<lparr>c_logLevel := c_logLevel v,
       c_legalComments := c_legalComments v,
       c_minifyWhitespace := c_minifyWhitespace v,
       c_minifyIdentifiers := c_minifyIdentifiers v,
       c_minifySyntax := c_minifySyntax v\<rparr>"

text \<open>
  \<open>getDTSConfigs\<close> reads the module-level \<open>cwd\<close>, which is \<open>process.cwd()\<close>.
  \<open>formats[0]\<close> is \<open>undefined\<close> for an empty list and a non-empty string otherwise.
\<close>

definition getDTSConfigs ::
  "World \<Rightarrow> Formats list \<Rightarrow> string list \<Rightarrow> bool
     \<Rightarrow> (Formats option \<times> DtsConfigSection \<times> bool) Async" where
  "getDTSConfigs w formats entries optimized =
     (let tsConfigPath = join [w_cwd w, ''tsconfig.json'']
      in andThen (pathExists w tsConfigPath) (\<lambda>tsConfigExists.
           let dtsBuild = (case formats of
                             [] \<Rightarrow> None
                           | f # _ \<Rightarrow> if optimized \<and> tsConfigExists then Some f else None);
               dtsConfig = \<lparr>dc_tsconfig = tsConfigPath,
                            dc_dts = \<lparr>d_entry = entries, d_resolve = True\<rparr>\<rparr>
           in ([], Inr (dtsBuild, dtsConfig, tsConfigExists))))"

text \<open>
  \<open>generateDTSMapperFile\<close>: the paths are computed when it is called; the task then
  awaits \<open>fs.ensureFile\<close> and \<open>fs.writeFile\<close>.  The file content is the dedented
  template, two lines joined by a line feed.
\<close>

definition generateDTSMapperFile :: "World \<Rightarrow> string \<Rightarrow> Task" where
  "generateDTSMapperFile w file =
     (let entryName = p_name (parse file);
          d = p_dir (parse file);
          pathName = join [w_cwd w, replace_first d ''./src'' ''dist'', entryName @ ''.d.ts''];
          srcName = join [w_cwd w, file];
          rel = join_with ''/''
                  (split_chr CHR ''/'' (relative (w_cwd w) (dirname pathName) (dirname srcName)))
      in [EnsureFile pathName,
          WriteFile pathName
            (''// dev-mode'' @ [CHR 0x0A] @
             ''export * from '' @ [CHR 0x27] @ rel @ ''/'' @ entryName @ [CHR 0x27] @ '';'')
            ''utf-8''])"

subsection \<open>The values \<open>run\<close> computes from the manifest\<close>

definition entries :: "PackageJson \<Rightarrow> string list" where
  "entries pkg = (case bc_entries (pj_bundler pkg) of None \<Rightarrow> [] | Some es \<Rightarrow> es)"

definition extraExternals :: "PackageJson \<Rightarrow> string list" where
  "extraExternals pkg = (case bc_externals (pj_bundler pkg) of None \<Rightarrow> [] | Some es \<Rightarrow> es)"

definition extraNoExternal :: "PackageJson \<Rightarrow> string list" where
  "extraNoExternal pkg = (case bc_noExternal (pj_bundler pkg) of None \<Rightarrow> [] | Some es \<Rightarrow> es)"

definition formats :: "PackageJson \<Rightarrow> Formats list" where
  "formats pkg = (case bc_formats (pj_bundler pkg) of None \<Rightarrow> [esm, cjs] | Some fs \<Rightarrow> fs)"

text \<open>\<open>Object.keys(o || {})\<close>.\<close>

definition keys :: "(string \<times> string) list option \<Rightarrow> string list" where
  "keys obj = (case obj of None \<Rightarrow> [] | Some kvs \<Rightarrow> map fst kvs)"

definition externals :: "PackageJson \<Rightarrow> string list" where
  "externals pkg =
     [pj_name pkg] @ extraExternals pkg @ keys (pj_dependencies pkg) @
     keys (pj_peerDependencies pkg)"

definition allEntries :: "string \<Rightarrow> PackageJson \<Rightarrow> string list" where
  "allEntries cwd pkg = map (\<lambda>e. slash (join [cwd, e])) (entries pkg)"

definition nonPresetEntries :: "string \<Rightarrow> PackageJson \<Rightarrow> string list" where
  "nonPresetEntries cwd pkg =
     filter (\<lambda>f. \<not> includes_str (p_name (parse f)) ''preset'') (allEntries cwd pkg)"

definition noExternal :: "PackageJson \<Rightarrow> Pattern list" where
  "noExternal pkg = [RegExp (''^@vitest'' @ [CHR 0x5C] @ ''/.+$'')] @ map Str (extraNoExternal pkg)"

definition outDir :: "World \<Rightarrow> string" where
  "outDir w = join [w_cwd w, ''dist'']"

definition hookCommand :: "World \<Rightarrow> string \<Rightarrow> string" where
  "hookCommand w script =
     ''node --loader '' @ w_dirname w @ ''/../node_modules/esbuild-register/loader.js -r '' @
     w_dirname w @ ''/../node_modules/esbuild-register/register.js '' @ script"

subsection \<open>The two calls of \<open>build\<close>\<close>

definition esmOptions ::
  "World \<Rightarrow> string \<Rightarrow> PackageJson \<Rightarrow> bool \<Rightarrow> bool \<Rightarrow> Formats option \<Rightarrow> DtsConfigSection
     \<Rightarrow> Options" where
  "esmOptions w cwd pkg watch optimized dtsBuild dtsConfig =
     (let platform = bc_platform (pj_bundler pkg)
      in \<lparr>o_noExternal = noExternal pkg,
          o_silent = True,
          o_treeshake = Some True,
          o_entry = nonPresetEntries cwd pkg,
          o_shims = True,
          o_watch = watch,
          o_outDir = outDir w,
          o_sourcemap = False,
          o_format = [esm],
          o_target = [''chrome100'', ''safari15'', ''firefox91''],
          o_clean = False,
          o_dts = (if dtsBuild = Some esm then Some (dc_dts dtsConfig) else None),
          o_tsconfig = (if dtsBuild = Some esm then Some (dc_tsconfig dtsConfig) else None),
          o_platform = browser,
          o_esbuildPlugins = Some
            (if platform = Some node
             then [aliasPlugin
                     [(''fs-extra/esm'', w_requireResolve w ''../node_modules/fs-extra''),
                      (''fs-extra/lib/esm.mjs'', w_requireResolve w ''../node_modules/fs-extra'')]]
             else [aliasPlugin
                     [(''process'', resolve (w_cwd w) ''../node_modules/process/browser.js''),
                      (''util'', resolve (w_cwd w) ''../node_modules/util/util.js'')]]),
          o_external = (if platform = Some node then externals pkg @ nodeInternals
                        else externals pkg),
          o_banner = Some
            (if platform = Some node
             then Some (''import { createRequire as myCreateRequire } from '' @ [CHR 0x27] @
                        ''node:module'' @ [CHR 0x27] @ '';          '' @ [CHR 0x0A] @
                        ''const require = myCreateRequire(import.meta.url);'')
             else None),
          o_esbuildOptions = (\<lambda>c.
             assign (c\<lparr>c_conditions := [''module''],
                       c_platform := (case platform of None \<Rightarrow> browser | Some pf \<Rightarrow> pf)\<rparr>)
               (getESBuildOptions optimized))\<rparr>)"

definition cjsOptions ::
  "World \<Rightarrow> string \<Rightarrow> PackageJson \<Rightarrow> bool \<Rightarrow> bool \<Rightarrow> Formats option \<Rightarrow> DtsConfigSection
     \<Rightarrow> Options" where
  "cjsOptions w cwd pkg watch optimized dtsBuild dtsConfig =
     \<lparr>o_noExternal = noExternal pkg,
      o_silent = True,
      o_treeshake = None,
      o_entry = allEntries cwd pkg,
      o_shims = True,
      o_watch = watch,
      o_outDir = outDir w,
      o_sourcemap = False,
      o_format = [cjs],
      o_target = [''node18''],
      o_clean = False,
      o_dts = (if dtsBuild = Some cjs then Some (dc_dts dtsConfig) else None),
      o_tsconfig = (if dtsBuild = Some cjs then Some (dc_tsconfig dtsConfig) else None),
      o_platform = node,
      o_esbuildPlugins = None,
      o_external = externals pkg,
      o_banner = None,
      o_esbuildOptions = (\<lambda>c.
         assign (c\<lparr>c_conditions := [''node'', ''default'', ''module''], c_platform := node\<rparr>)
           (getESBuildOptions optimized))\<rparr>"

text \<open>The array \<open>tasks\<close> when \<open>run\<close> reaches \<open>Promise.all\<close>, in the order of the pushes.\<close>

definition tasks ::
  "World \<Rightarrow> string \<Rightarrow> PackageJson \<Rightarrow> bool \<Rightarrow> bool \<Rightarrow> Formats option \<Rightarrow> DtsConfigSection
     \<Rightarrow> bool \<Rightarrow> Task list" where
  "tasks w cwd pkg watch optimized dtsBuild dtsConfig tsConfigExists =
     (if esm \<in> set (formats pkg)
      then [[Build (esmOptions w cwd pkg watch optimized dtsBuild dtsConfig)]] else []) @
     (if cjs \<in> set (formats pkg)
      then [[Build (cjsOptions w cwd pkg watch optimized dtsBuild dtsConfig)]] else []) @
     (if tsConfigExists \<and> \<not> optimized
      then map (generateDTSMapperFile w) (entries pkg) else [])"

subsection \<open>\<open>Promise.all\<close>\<close>

text \<open>
  The pending tasks advance one operation at a time, in the order the world chooses.
  The first operation that fails rejects the whole; when no task is pending any more,
  the whole is fulfilled.
\<close>

definition removeAt :: "nat \<Rightarrow> 'a list \<Rightarrow> 'a list" where
  "removeAt k xs = take k xs @ drop (Suc k) xs"

function awaitAll :: "World \<Rightarrow> (nat \<times> Task) list \<Rightarrow> unit Async" where
  "awaitAll w pending =
     (if pending = [] then ([], Inr ())
      else
        let k = w_pick w pending mod length pending
        in case pending ! k of
             (i, []) \<Rightarrow> awaitAll w (removeAt k pending)
           | (i, op # rest) \<Rightarrow>
               (case w_perform w op of
                  Some e \<Rightarrow> ([Failed i op], Inl e)
                | None \<Rightarrow>
                    (case awaitAll w (if rest = [] then removeAt k pending
                                      else pending[k := (i, rest)]) of
                       (tr, r) \<Rightarrow> (Done i op # tr, r))))"
  by pat_completeness auto

text \<open>Each step removes one pending operation or one settled task.\<close>

definition pendingOps :: "(nat \<times> Task) list \<Rightarrow> nat" where
  "pendingOps pending = sum_list (map (\<lambda>p. Suc (length (snd p))) pending)"

lemma pendingOps_removeAt:
  assumes k: "k < length xs"
  shows "pendingOps (removeAt k xs) + Suc (length (snd (xs ! k))) = pendingOps xs"
proof -
  have "xs = take k xs @ (xs ! k) # drop (Suc k) xs"
    using k by (rule id_take_nth_drop)
  then have "pendingOps xs = pendingOps (take k xs @ (xs ! k) # drop (Suc k) xs)"
    by simp
  then show ?thesis
    by (simp add: pendingOps_def removeAt_def)
qed

lemma pendingOps_update:
  assumes k: "k < length xs"
  shows "pendingOps (xs[k := y]) + Suc (length (snd (xs ! k))) =
         pendingOps xs + Suc (length (snd y))"
proof -
  have "xs[k := y] = take k xs @ y # drop (Suc k) xs"
    using k by (rule upd_conv_take_nth_drop)
  moreover have "pendingOps (take k xs @ y # drop (Suc k) xs) + Suc (length (snd (xs ! k))) =
      pendingOps (removeAt k xs) + Suc (length (snd (xs ! k))) + Suc (length (snd y))"
    by (simp add: pendingOps_def removeAt_def)
  ultimately show ?thesis
    using pendingOps_removeAt[OF k] by simp
qed

lemma removeAt_less: "k < length xs \<Longrightarrow> pendingOps (removeAt k xs) < pendingOps xs"
  using pendingOps_removeAt[of k xs] by simp

lemma update_less:
  "k < length xs \<Longrightarrow> (i, op # rest) = xs ! k \<Longrightarrow>
   pendingOps (xs[k := (i, rest)]) < pendingOps xs"
  using pendingOps_update[of k xs "(i, rest)"] by (cases "xs ! k") auto

termination awaitAll
  by (relation "measure (\<lambda>(w, pending). pendingOps pending)")
     (auto intro!: removeAt_less update_less)

subsection \<open>\<open>run\<close> and the self execution\<close>

text \<open>Pushing the tasks starts them, in order, before anything is awaited.\<close>

definition dispatch :: "Task list \<Rightarrow> unit Async" where
  "dispatch ts = (map (\<lambda>(i, t). Dispatched i t) (enumerate 0 ts), Inr ())"

text \<open>
  \<open>if (pre) await exec(...)\<close>: a hook is run when its path is truthy, that is present
  and not the empty string.  The post-hook is run with \<open>{ debug: true }\<close>.
\<close>

definition hook :: "World \<Rightarrow> string \<Rightarrow> string option \<Rightarrow> bool option \<Rightarrow> unit Async" where
  "hook w cwd script debug =
     (case script of
        None \<Rightarrow> skip
      | Some s \<Rightarrow> if s = [] then skip else exec w (hookCommand w s) cwd debug)"

definition run :: "World \<Rightarrow> string \<Rightarrow> string list \<Rightarrow> unit Async" where
  "run w cwd flags =
     andThen (readJson w (join [cwd, ''package.json''])) (\<lambda>pkg.
     andThen (hook w cwd (bc_pre (pj_bundler pkg)) None) (\<lambda>_.
       let reset = hasFlag flags ''reset'';
           watch = hasFlag flags ''watch'';
           optimized = hasFlag flags ''optimized''
       in
     andThen (if reset then emptyDir w (join [w_cwd w, ''dist'']) else skip) (\<lambda>_.
     andThen (getDTSConfigs w (formats pkg) (entries pkg) optimized)
       (\<lambda>(dtsBuild, dtsConfig, tsConfigExists).
       let ts = tasks w cwd pkg watch optimized dtsBuild dtsConfig tsConfigExists
       in
     andThen (dispatch ts) (\<lambda>_.
     andThen (awaitAll w (enumerate 0 ts)) (\<lambda>_.
     andThen (hook w cwd (bc_post (pj_bundler pkg)) (Some True)) (\<lambda>_.
       (if w_env_CI w \<noteq> Some ''true'' then [ConsoleLog ''done''] else [], Inr ()))))))))"

text \<open>
  The self execution: \<open>run({ cwd, flags }).catch(...)\<close>.  The handler prints the stack
  of an \<open>Error\<close> and calls \<open>process.exit(1)\<close>.  When \<open>run\<close> is fulfilled nothing sets
  an exit code, so the process ends with status 0.
\<close>

definition main :: "World \<Rightarrow> Event list \<times> nat" where
  "main w =
     (let flags = drop 2 (w_argv w);
          cwd = w_cwd w
      in case run w cwd flags of
           (tr, Inr u) \<Rightarrow> (tr, 0)
         | (tr, Inl err) \<Rightarrow>
             (tr @ (case err of Error stack \<Rightarrow> [ConsoleError stack] | NonError \<Rightarrow> []), 1))"

text \<open>
  The tasks \<open>run\<close> pushes for a manifest: \<open>tasks\<close> at the values \<open>run\<close> computes
  from the flags and from \<open>getDTSConfigs\<close>.
\<close>

definition runTasks :: "World \<Rightarrow> string \<Rightarrow> string list \<Rightarrow> PackageJson \<Rightarrow> Task list" where
  "runTasks w cwd flags pkg =
     (case snd (getDTSConfigs w (formats pkg) (entries pkg) (hasFlag flags ''optimized'')) of
        Inl e \<Rightarrow> []
      | Inr (dtsBuild, dtsConfig, tsConfigExists) \<Rightarrow>
          tasks w cwd pkg (hasFlag flags ''watch'') (hasFlag flags ''optimized'')
            dtsBuild dtsConfig tsConfigExists)"

section \<open>Properties of \<open>Promise.all\<close>\<close>

declare awaitAll.simps [simp del]

lemma awaitAll_Nil [simp]: "awaitAll w [] = ([], Inr ())"
  by (subst awaitAll.simps) simp

lemma awaitAll_Settled:
  "pending \<noteq> [] \<Longrightarrow> pending ! (w_pick w pending mod length pending) = (i, []) \<Longrightarrow>
   awaitAll w pending = awaitAll w (removeAt (w_pick w pending mod length pending) pending)"
  by (subst awaitAll.simps) (simp add: Let_def)

lemma awaitAll_Fails:
  "pending \<noteq> [] \<Longrightarrow> pending ! (w_pick w pending mod length pending) = (i, op # rest) \<Longrightarrow>
   w_perform w op = Some e \<Longrightarrow> awaitAll w pending = ([Failed i op], Inl e)"
  by (subst awaitAll.simps) (simp add: Let_def)

lemma awaitAll_Step:
  "pending \<noteq> [] \<Longrightarrow> pending ! (w_pick w pending mod length pending) = (i, op # rest) \<Longrightarrow>
   w_perform w op = None \<Longrightarrow>
   awaitAll w pending =
     (Done i op # fst (awaitAll w (if rest = [] then removeAt (w_pick w pending mod length pending) pending
                                   else pending[w_pick w pending mod length pending := (i, rest)])),
      snd (awaitAll w (if rest = [] then removeAt (w_pick w pending mod length pending) pending
                       else pending[w_pick w pending mod length pending := (i, rest)])))"
  by (subst awaitAll.simps) (simp add: Let_def split: prod.splits)

lemma awaitAll_induct2 [case_names Empty Settled Fails Step]:
  assumes empty: "\<And>w::World. P w []"
    and settled: "\<And>(w::World) pending k i. pending \<noteq> [] \<Longrightarrow> k = w_pick w pending mod length pending \<Longrightarrow>
           pending ! k = (i, []) \<Longrightarrow> P w (removeAt k pending) \<Longrightarrow> P w pending"
    and fails: "\<And>(w::World) pending k i op rest e. pending \<noteq> [] \<Longrightarrow>
           k = w_pick w pending mod length pending \<Longrightarrow> pending ! k = (i, op # rest) \<Longrightarrow>
           w_perform w op = Some e \<Longrightarrow> P w pending"
    and step: "\<And>(w::World) pending k i op rest. pending \<noteq> [] \<Longrightarrow>
           k = w_pick w pending mod length pending \<Longrightarrow> pending ! k = (i, op # rest) \<Longrightarrow>
           w_perform w op = None \<Longrightarrow>
           P w (if rest = [] then removeAt k pending else pending[k := (i, rest)]) \<Longrightarrow> P w pending"
  shows "P (w::World) pending"
proof (induction w pending rule: awaitAll.induct)
  case (1 w pending)
  show ?case
  proof (cases "pending = []")
    case True
    then show ?thesis using empty by simp
  next
    case False
    define k where "k = w_pick w pending mod length pending"
    obtain i ops where nth: "pending ! k = (i, ops)" by (cases "pending ! k")
    show ?thesis
    proof (cases ops)
      case Nil
      show ?thesis
        using settled[OF False k_def nth[unfolded Nil]] "1.IH"(1)[OF False k_def nth[symmetric] Nil]
        by simp
    next
      case (Cons op rest)
      show ?thesis
      proof (cases "w_perform w op")
        case (Some e)
        show ?thesis by (rule fails[OF False k_def nth[unfolded Cons] Some])
      next
        case None
        show ?thesis
          using step[OF False k_def nth[unfolded Cons] None]
            "1.IH"(2)[OF False k_def nth[symmetric] Cons None]
          by simp
      qed
    qed
  qed
qed

text \<open>All the operations of the pending tasks, each tagged with its task.\<close>

definition allDone :: "(nat \<times> Task) list \<Rightarrow> Event list" where
  "allDone pending = concat (map (\<lambda>(i, ops). map (Done i) ops) pending)"

lemma allDone_removeAt:
  assumes "k < length xs" "xs ! k = (i, ops)"
  shows "mset (allDone xs) = mset (map (Done i) ops) + mset (allDone (removeAt k xs))"
proof -
  have "xs = take k xs @ (i, ops) # drop (Suc k) xs"
    using assms id_take_nth_drop[of k xs] by simp
  then have "allDone xs = allDone (take k xs @ (i, ops) # drop (Suc k) xs)" by simp
  then show ?thesis by (simp add: allDone_def removeAt_def)
qed

lemma allDone_update:
  assumes "k < length xs"
  shows "mset (allDone (xs[k := (i, ops)])) = mset (map (Done i) ops) + mset (allDone (removeAt k xs))"
proof -
  have "xs[k := (i, ops)] = take k xs @ (i, ops) # drop (Suc k) xs"
    using assms by (rule upd_conv_take_nth_drop)
  then show ?thesis by (simp add: allDone_def removeAt_def)
qed

lemma awaitAll_fulfilled:
  "snd (awaitAll w pending) = Inr () \<Longrightarrow> mset (fst (awaitAll w pending)) = mset (allDone pending)"
proof (induction w pending rule: awaitAll_induct2)
  case (Empty w)
  show ?case by (simp add: allDone_def)
next
  case (Settled w pending k i)
  then have k: "k < length pending" by simp
  from Settled show ?case
    using awaitAll_Settled[of pending w i] allDone_removeAt[OF k Settled(3)] by simp
next
  case (Fails w pending k i op rest e)
  then show ?case using awaitAll_Fails[of pending w i op rest e] by simp
next
  case (Step w pending k i op rest)
  then have k: "k < length pending" by simp
  note unf = awaitAll_Step[of pending w i op rest, folded Step(2), OF Step(1) Step(3) Step(4)]
  show ?case
  proof (cases "rest = []")
    case True
    with Step unf allDone_removeAt[OF k Step(3)] show ?thesis by simp
  next
    case False
    with Step unf allDone_removeAt[OF k Step(3)] allDone_update[OF k, of i rest] show ?thesis by simp
  qed
qed


section \<open>Sequencing\<close>

lemma fst_andThen:
  "fst (andThen m f) = fst m @ (case snd m of Inl e \<Rightarrow> [] | Inr x \<Rightarrow> fst (f x))"
  by (cases m) (auto simp: andThen_def split: sum.splits prod.splits)

lemma snd_andThen:
  "snd (andThen m f) = (case snd m of Inl e \<Rightarrow> Inl e | Inr x \<Rightarrow> snd (f x))"
  by (cases m) (auto simp: andThen_def split: sum.splits prod.splits)

section \<open>The structure of a run\<close>

definition tsConfigPath :: "World \<Rightarrow> string" where
  "tsConfigPath w = join [w_cwd w, ''tsconfig.json'']"

lemma getDTSConfigs_eq:
  "getDTSConfigs w fs es opt =
     ([PathExists (tsConfigPath w)],
      Inr (case fs of [] \<Rightarrow> None
           | f # _ \<Rightarrow> if opt \<and> w_pathExists w (tsConfigPath w) then Some f else None,
           \<lparr>dc_tsconfig = tsConfigPath w, dc_dts = \<lparr>d_entry = es, d_resolve = True\<rparr>\<rparr>,
           w_pathExists w (tsConfigPath w)))"
  unfolding getDTSConfigs_def tsConfigPath_def pathExists_def Let_def
  by (simp add: andThen_def)

text \<open>
  What \<open>run\<close> does before it pushes the first task, and after \<open>Promise.all\<close>.
\<close>

definition prelude :: "World \<Rightarrow> string \<Rightarrow> string list \<Rightarrow> PackageJson \<Rightarrow> unit Async" where
  "prelude w cwd flags pkg =
     andThen (hook w cwd (bc_pre (pj_bundler pkg)) None) (\<lambda>_.
     andThen (if hasFlag flags ''reset'' then emptyDir w (join [w_cwd w, ''dist'']) else skip) (\<lambda>_.
       ([PathExists (tsConfigPath w)], Inr ())))"

definition epilogue :: "World \<Rightarrow> string \<Rightarrow> PackageJson \<Rightarrow> unit Async" where
  "epilogue w cwd pkg =
     andThen (hook w cwd (bc_post (pj_bundler pkg)) (Some True)) (\<lambda>_.
       (if w_env_CI w \<noteq> Some ''true'' then [ConsoleLog ''done''] else [], Inr ()))"

lemma run_no_manifest:
  "w_readJson w (join [cwd, ''package.json'']) = Inl e \<Longrightarrow>
   run w cwd flags = ([ReadJson (join [cwd, ''package.json''])], Inl e)"
  by (simp add: run_def readJson_def andThen_def)

lemma andThen_assoc: "andThen (andThen m f) g = andThen m (\<lambda>x. andThen (f x) g)"
  by (cases m) (auto simp: andThen_def split: sum.splits prod.splits)

lemma andThen_Inr: "andThen (tr, Inr x) f = (tr @ fst (f x), snd (f x))"
  by (simp add: andThen_def split: prod.splits)

lemma run_manifest:
  assumes "w_readJson w (join [cwd, ''package.json'']) = Inr pkg"
  shows "run w cwd flags =
     andThen ([ReadJson (join [cwd, ''package.json''])], Inr ()) (\<lambda>_.
     andThen (prelude w cwd flags pkg) (\<lambda>_.
     andThen (dispatch (runTasks w cwd flags pkg)) (\<lambda>_.
     andThen (awaitAll w (enumerate 0 (runTasks w cwd flags pkg))) (\<lambda>_.
       epilogue w cwd pkg))))"
  unfolding run_def readJson_def assms Let_def prelude_def epilogue_def runTasks_def
    getDTSConfigs_eq
  by (simp add: andThen_assoc andThen_Inr)


section \<open>The events of a run\<close>

definition isDispatched :: "Event \<Rightarrow> bool" where
  "isDispatched e = (case e of Dispatched i t \<Rightarrow> True | _ \<Rightarrow> False)"

definition isTaskEvent :: "Event \<Rightarrow> bool" where
  "isTaskEvent e = (case e of Done i op \<Rightarrow> True | Failed i op \<Rightarrow> True | _ \<Rightarrow> False)"

text \<open>The events of the prelude: the pre-hook, the reset and the look for the type configuration.\<close>

definition isSetupEvent :: "Event \<Rightarrow> bool" where
  "isSetupEvent e =
     (case e of
        ExecStart c d dbg \<Rightarrow> dbg = None
      | ExecEnd c d dbg \<Rightarrow> dbg = None
      | ExecFailed c d dbg \<Rightarrow> dbg = None
      | EmptyDir d \<Rightarrow> True
      | PathExists f \<Rightarrow> True
      | _ \<Rightarrow> False)"

lemma awaitAll_events: "e \<in> set (fst (awaitAll w pending)) \<Longrightarrow> isTaskEvent e"
proof (induction w pending rule: awaitAll_induct2)
  case (Empty w)
  then show ?case by simp
next
  case (Settled w pending k i)
  then show ?case using awaitAll_Settled[of pending w i] by simp
next
  case (Fails w pending k i op rest e')
  then show ?case using awaitAll_Fails[of pending w i op rest e'] by (simp add: isTaskEvent_def)
next
  case (Step w pending k i op rest)
  then show ?case
    using awaitAll_Step[of pending w i op rest] by (auto simp: isTaskEvent_def)
qed

lemma hook_events_pre: "e \<in> set (fst (hook w cwd s None)) \<Longrightarrow> isSetupEvent e"
  by (auto simp: hook_def skip_def exec_def isSetupEvent_def split: option.splits if_splits)

lemma prelude_events: "e \<in> set (fst (prelude w cwd flags pkg)) \<Longrightarrow> isSetupEvent e"
  by (auto simp: prelude_def fst_andThen emptyDir_def skip_def isSetupEvent_def
      dest: hook_events_pre split: sum.splits if_splits)

lemma epilogue_events:
  "e \<in> set (fst (epilogue w cwd pkg)) \<Longrightarrow> \<not> isDispatched e \<and> \<not> isTaskEvent e \<and> \<not> isSetupEvent e"
  by (auto simp: epilogue_def fst_andThen hook_def skip_def exec_def isDispatched_def
      isTaskEvent_def isSetupEvent_def split: sum.splits if_splits option.splits)

lemma run_trace:
  assumes "w_readJson w (join [cwd, ''package.json'']) = Inr pkg"
  shows "fst (run w cwd flags) =
     ReadJson (join [cwd, ''package.json'']) # fst (prelude w cwd flags pkg) @
     (case snd (prelude w cwd flags pkg) of
        Inl e \<Rightarrow> []
      | Inr u \<Rightarrow>
          map (\<lambda>(i, t). Dispatched i t) (enumerate 0 (runTasks w cwd flags pkg)) @
          fst (awaitAll w (enumerate 0 (runTasks w cwd flags pkg))) @
          (case snd (awaitAll w (enumerate 0 (runTasks w cwd flags pkg))) of
             Inl e \<Rightarrow> []
           | Inr u \<Rightarrow> fst (epilogue w cwd pkg)))"
  by (simp add: run_manifest[OF assms] andThen_Inr fst_andThen dispatch_def split: sum.splits)

lemma run_result:
  assumes "w_readJson w (join [cwd, ''package.json'']) = Inr pkg"
  shows "snd (run w cwd flags) =
     (case snd (prelude w cwd flags pkg) of
        Inl e \<Rightarrow> Inl e
      | Inr u \<Rightarrow>
          (case snd (awaitAll w (enumerate 0 (runTasks w cwd flags pkg))) of
             Inl e \<Rightarrow> Inl e
           | Inr u \<Rightarrow> snd (epilogue w cwd pkg)))"
  by (simp add: run_manifest[OF assms] andThen_Inr snd_andThen dispatch_def split: sum.splits)

lemma dispatched_run:
  assumes "w_readJson w (join [cwd, ''package.json'']) = Inr pkg"
  shows "Dispatched i t \<in> set (fst (run w cwd flags)) \<longleftrightarrow>
         snd (prelude w cwd flags pkg) = Inr () \<and> i < length (runTasks w cwd flags pkg) \<and>
         runTasks w cwd flags pkg ! i = t"
proof -
  have a: "Dispatched i t \<notin> set (fst (prelude w cwd flags pkg))"
    using prelude_events[of "Dispatched i t"] by (auto simp: isSetupEvent_def)
  have b: "Dispatched i t \<notin> set (fst (awaitAll w p))" for p
    using awaitAll_events[of "Dispatched i t"] by (auto simp: isTaskEvent_def)
  have c: "Dispatched i t \<notin> set (fst (epilogue w cwd pkg))"
    using epilogue_events[of "Dispatched i t"] by (auto simp: isDispatched_def)
  have d: "Dispatched i t \<in> (\<lambda>(i, t). Dispatched i t) ` set (enumerate 0 ts) \<longleftrightarrow>
           i < length ts \<and> ts ! i = t" for ts
  proof
    assume "Dispatched i t \<in> (\<lambda>(i, t). Dispatched i t) ` set (enumerate 0 ts)"
    then show "i < length ts \<and> ts ! i = t"
      by (auto simp: in_set_enumerate_eq)
  next
    assume "i < length ts \<and> ts ! i = t"
    then have "(i, t) \<in> set (enumerate 0 ts)"
      by (simp add: in_set_enumerate_eq)
    then show "Dispatched i t \<in> (\<lambda>(i, t). Dispatched i t) ` set (enumerate 0 ts)"
      by force
  qed
  show ?thesis
    by (auto simp: run_trace[OF assms] a b c d split: sum.splits)
qed

lemma runTasks_eq:
  "runTasks w cwd flags pkg =
     tasks w cwd pkg (hasFlag flags ''watch'') (hasFlag flags ''optimized'')
       (case formats pkg of
          [] \<Rightarrow> None
        | f # _ \<Rightarrow> if hasFlag flags ''optimized'' \<and> w_pathExists w (tsConfigPath w)
                   then Some f else None)
       \<lparr>dc_tsconfig = tsConfigPath w, dc_dts = \<lparr>d_entry = entries pkg, d_resolve = True\<rparr>\<rparr>
       (w_pathExists w (tsConfigPath w))"
  by (simp add: runTasks_def getDTSConfigs_eq)


section \<open>An example package\<close>

text \<open>
  A package with two entries, one of them a preset, built for the server platform in
  both formats, with a pre-hook and a post-hook; and a world in which every call
  succeeds.
\<close>

definition examplePkg :: PackageJson where
  "examplePkg =
     \<lparr>pj_name = ''pkg'',
      pj_dependencies = Some [(''lodash'', ''^4.0.0'')],
      pj_peerDependencies = Some [(''react'', ''^18.0.0'')],
      pj_bundler =
        \<lparr>bc_entries = Some [''./src/index.ts'', ''./src/presets/foo-preset.ts''],
         bc_externals = Some [''fsevents''],
         bc_noExternal = Some [''chalk''],
         bc_platform = Some node,
         bc_pre = Some ''./scripts/pre.ts'',
         bc_post = Some ''./scripts/post.ts'',
         bc_formats = Some [esm, cjs]\<rparr>\<rparr>"

definition exampleWorld :: World where
  "exampleWorld =
     \<lparr>w_cwd = ''/pkg'',
      w_argv = [''node'', ''bundle.ts''],
      w_env_CI = None,
      w_dirname = ''/scripts/prepare'',
      w_readJson = (\<lambda>f. Inr examplePkg),
      w_pathExists = (\<lambda>f. True),
      w_emptyDir = (\<lambda>d. None),
      w_exec = (\<lambda>c d dbg. None),
      w_perform = (\<lambda>op. None),
      w_requireResolve = (\<lambda>m. ''/scripts'' @ drop 2 m),
      w_pick = (\<lambda>pending. 0)\<rparr>"

lemma example_manifest: "w_readJson exampleWorld (join [cwd, ''package.json'']) = Inr examplePkg"
  by (simp add: exampleWorld_def)

lemma example_prelude: "snd (prelude exampleWorld cwd flags examplePkg) = Inr ()"
  by (simp add: prelude_def snd_andThen hook_def exec_def skip_def emptyDir_def
      exampleWorld_def examplePkg_def split: sum.splits)

lemma example_formats: "formats examplePkg = [esm, cjs]"
  by (simp add: formats_def examplePkg_def)

lemma hasFlag_Nil: "hasFlag [] nm = False"
  by (simp add: hasFlag_def)

lemma hasFlag_optimized: "hasFlag [''--optimized''] ''optimized'' = True"
  by (simp add: hasFlag_def startsWith_def)

lemma example_tasks_nth:
  "i < length (runTasks exampleWorld cwd flags examplePkg) \<Longrightarrow>
   Dispatched i (runTasks exampleWorld cwd flags examplePkg ! i)
     \<in> set (fst (run exampleWorld cwd flags))"
  by (simp add: dispatched_run[OF example_manifest] example_prelude)

lemma example_tasks_0:
  "runTasks exampleWorld cwd [] examplePkg ! 0 =
     [Build (esmOptions exampleWorld cwd examplePkg False False None
        \<lparr>dc_tsconfig = tsConfigPath exampleWorld,
           dc_dts = \<lparr>d_entry = entries examplePkg, d_resolve = True\<rparr>\<rparr>)]"
  by (simp add: runTasks_eq tasks_def example_formats hasFlag_Nil)

lemma example_tasks_1:
  "runTasks exampleWorld cwd [] examplePkg ! 1 =
     [Build (cjsOptions exampleWorld cwd examplePkg False False None
        \<lparr>dc_tsconfig = tsConfigPath exampleWorld,
           dc_dts = \<lparr>d_entry = entries examplePkg, d_resolve = True\<rparr>\<rparr>)]"
  by (simp add: runTasks_eq tasks_def example_formats hasFlag_Nil)

lemma example_tasks_length:
  "0 < length (runTasks exampleWorld cwd flags examplePkg)"
  "1 < length (runTasks exampleWorld cwd flags examplePkg)"
  by (simp_all add: runTasks_eq tasks_def example_formats)

section \<open>The options of the compilation tasks\<close>

lemma mapper_no_build: "Build opts \<notin> set (generateDTSMapperFile w e)"
  by (simp add: generateDTSMapperFile_def Let_def)

lemma build_in_tasks:
  assumes "t \<in> set (tasks w cwd pkg watch optimized dtsBuild dtsConfig ex)" and "Build opts \<in> set t"
  shows "(esm \<in> set (formats pkg) \<and> opts = esmOptions w cwd pkg watch optimized dtsBuild dtsConfig) \<or>
         (cjs \<in> set (formats pkg) \<and> opts = cjsOptions w cwd pkg watch optimized dtsBuild dtsConfig)"
  using assms by (auto simp: tasks_def mapper_no_build split: if_splits)


lemma build_in_run:
  assumes "w_readJson w (join [cwd, ''package.json'']) = Inr pkg"
    and "Dispatched i t \<in> set (fst (run w cwd flags))"
    and "Build opts \<in> set t"
  shows "\<exists>dtsBuild dtsConfig.
           (esm \<in> set (formats pkg) \<and>
            opts = esmOptions w cwd pkg (hasFlag flags ''watch'') (hasFlag flags ''optimized'')
                     dtsBuild dtsConfig) \<or>
           (cjs \<in> set (formats pkg) \<and>
            opts = cjsOptions w cwd pkg (hasFlag flags ''watch'') (hasFlag flags ''optimized'')
                     dtsBuild dtsConfig)"
proof -
  from assms(2) have "t \<in> set (runTasks w cwd flags pkg)"
    by (auto simp: dispatched_run[OF assms(1)])
  from build_in_tasks[OF this[unfolded runTasks_eq] assms(3)] show ?thesis
    by blast
qed

lemma startsWith_iff: "startsWith s p \<longleftrightarrow> (\<exists>b. s = p @ b)"
proof
  assume "startsWith s p"
  then have "s = p @ drop (length p) s"
    by (metis append_take_drop_id startsWith_def)
  then show "\<exists>b. s = p @ b" ..
next
  assume "\<exists>b. s = p @ b"
  then show "startsWith s p" by (auto simp: startsWith_def)
qed

lemma includes_str_iff: "includes_str s sub \<longleftrightarrow> (\<exists>a b. s = a @ sub @ b)"
proof (induction s)
  case Nil
  then show ?case by auto
next
  case (Cons c s)
  show ?case
  proof
    assume "includes_str (c # s) sub"
    then consider "startsWith (c # s) sub" | "includes_str s sub" by auto
    then show "\<exists>a b. c # s = a @ sub @ b"
    proof cases
      case 1
      then obtain b where "c # s = sub @ b" by (auto simp: startsWith_iff)
      then have "c # s = [] @ sub @ b" by simp
      then show ?thesis by blast
    next
      case 2
      then obtain a b where "s = a @ sub @ b" using Cons.IH by auto
      then have "c # s = (c # a) @ sub @ b" by simp
      then show ?thesis by blast
    qed
  next
    assume "\<exists>a b. c # s = a @ sub @ b"
    then obtain a b where ab: "c # s = a @ sub @ b" by auto
    show "includes_str (c # s) sub"
    proof (cases a)
      case Nil
      with ab have "startsWith (c # s) sub" by (auto simp: startsWith_iff)
      then show ?thesis by simp
    next
      case (Cons x a')
      with ab have "s = a' @ sub @ b" by simp
      then have "includes_str s sub" using Cons.IH by blast
      then show ?thesis by simp
    qed
  qed
qed

lemma esmOptions_fields:
  "o_format (esmOptions w cwd pkg watch optimized dtsBuild dtsConfig) = [esm]"
  "o_entry (esmOptions w cwd pkg watch optimized dtsBuild dtsConfig) = nonPresetEntries cwd pkg"
  "o_noExternal (esmOptions w cwd pkg watch optimized dtsBuild dtsConfig) = noExternal pkg"
  "o_external (esmOptions w cwd pkg watch optimized dtsBuild dtsConfig) =
     (if bc_platform (pj_bundler pkg) = Some node then externals pkg @ nodeInternals
      else externals pkg)"
  "o_dts (esmOptions w cwd pkg watch optimized dtsBuild dtsConfig) =
     (if dtsBuild = Some esm then Some (dc_dts dtsConfig) else None)"
  "o_esbuildOptions (esmOptions w cwd pkg watch optimized dtsBuild dtsConfig) c =
     assign (c\<lparr>c_conditions := [''module''],
               c_platform := (case bc_platform (pj_bundler pkg) of None \<Rightarrow> browser | Some pf \<Rightarrow> pf)\<rparr>)
       (getESBuildOptions optimized)"
  by (simp_all add: esmOptions_def Let_def)

lemma cjsOptions_fields:
  "o_format (cjsOptions w cwd pkg watch optimized dtsBuild dtsConfig) = [cjs]"
  "o_entry (cjsOptions w cwd pkg watch optimized dtsBuild dtsConfig) = allEntries cwd pkg"
  "o_noExternal (cjsOptions w cwd pkg watch optimized dtsBuild dtsConfig) = noExternal pkg"
  "o_external (cjsOptions w cwd pkg watch optimized dtsBuild dtsConfig) = externals pkg"
  "o_dts (cjsOptions w cwd pkg watch optimized dtsBuild dtsConfig) =
     (if dtsBuild = Some cjs then Some (dc_dts dtsConfig) else None)"
  "o_esbuildOptions (cjsOptions w cwd pkg watch optimized dtsBuild dtsConfig) c =
     assign (c\<lparr>c_conditions := [''node'', ''default'', ''module''], c_platform := node\<rparr>)
       (getESBuildOptions optimized)"
  by (simp_all add: cjsOptions_def)

lemma build_cases:
  assumes "w_readJson w (join [cwd, ''package.json'']) = Inr pkg"
    and "Dispatched i t \<in> set (fst (run w cwd flags))"
    and "Build opts \<in> set t"
  obtains dtsBuild dtsConfig where
      "opts = esmOptions w cwd pkg (hasFlag flags ''watch'') (hasFlag flags ''optimized'')
                dtsBuild dtsConfig"
    | dtsBuild dtsConfig where
      "opts = cjsOptions w cwd pkg (hasFlag flags ''watch'') (hasFlag flags ''optimized'')
                dtsBuild dtsConfig"
  using build_in_run[OF assms] by blast

lemma assign_fields:
  "c_minifySyntax (assign c v) = c_minifySyntax v"
  "c_minifyWhitespace (assign c v) = c_minifyWhitespace v"
  "c_minifyIdentifiers (assign c v) = c_minifyIdentifiers v"
  by (simp_all add: assign_def)

text \<open>An options object of esbuild before the callback has changed it.\<close>

definition exampleBuildOptions :: BuildOptions where
  "exampleBuildOptions =
     \<lparr>c_logLevel = ''info'', c_legalComments = ''eof'', c_minifyWhitespace = False,
      c_minifyIdentifiers = False, c_minifySyntax = False,
      c_conditions = [], c_platform = browser\<rparr>"

lemma example_tasks_optimized_0:
  "runTasks exampleWorld cwd [''--optimized''] examplePkg ! 0 =
     [Build (esmOptions exampleWorld cwd examplePkg False True (Some esm)
        \<lparr>dc_tsconfig = tsConfigPath exampleWorld,
           dc_dts = \<lparr>d_entry = entries examplePkg, d_resolve = True\<rparr>\<rparr>)]"
  by (simp add: runTasks_eq tasks_def example_formats hasFlag_def startsWith_def exampleWorld_def)

lemma example_dispatched_optimized_0:
  "Dispatched 0 [Build (esmOptions exampleWorld cwd examplePkg False True (Some esm)
        \<lparr>dc_tsconfig = tsConfigPath exampleWorld,
           dc_dts = \<lparr>d_entry = entries examplePkg, d_resolve = True\<rparr>\<rparr>)]
     \<in> set (fst (run exampleWorld cwd [''--optimized'']))"
  using example_tasks_nth[OF example_tasks_length(1), of cwd "[''--optimized'']"]
  by (simp add: example_tasks_optimized_0)

text \<open>
  C6, as stated, fails: in a run with \<open>--optimized\<close> the callback of the ESM task
  turns whitespace minification on.
\<close>

theorem optimized_minifies_whitespace_counterexample:
  "Dispatched 0 [Build (esmOptions exampleWorld ''/pkg'' examplePkg False True (Some esm)
        \<lparr>dc_tsconfig = tsConfigPath exampleWorld,
           dc_dts = \<lparr>d_entry = entries examplePkg, d_resolve = True\<rparr>\<rparr>)]
     \<in> set (fst (run exampleWorld ''/pkg'' [''--optimized''])) \<and>
   hasFlag [''--optimized''] ''optimized'' \<and>
   c_minifyWhitespace
     (o_esbuildOptions (esmOptions exampleWorld ''/pkg'' examplePkg False True (Some esm)
        \<lparr>dc_tsconfig = tsConfigPath exampleWorld,
           dc_dts = \<lparr>d_entry = entries examplePkg, d_resolve = True\<rparr>\<rparr>) exampleBuildOptions)"
  by (simp add: example_dispatched_optimized_0 hasFlag_optimized esmOptions_fields assign_fields
      getESBuildOptions_def)

text \<open>
  C6, amended: in every compilation task the \<open>esbuildOptions\<close> callback gives syntax
  minification and whitespace minification the value of the \<open>optimized\<close> flag, and
  never enables the minification of identifiers.  So both are enabled when the flag is
  set, and neither when it is not.
\<close>

theorem minification_follows_optimized:
  assumes "w_readJson w (join [cwd, ''package.json'']) = Inr pkg"
    and "Dispatched i t \<in> set (fst (run w cwd flags))"
    and "Build opts \<in> set t"
  shows "c_minifySyntax (o_esbuildOptions opts c) = hasFlag flags ''optimized'' \<and>
         c_minifyWhitespace (o_esbuildOptions opts c) = hasFlag flags ''optimized'' \<and>
         c_minifyIdentifiers (o_esbuildOptions opts c) = False"
  using assms
  by (cases rule: build_cases)
     (simp_all add: esmOptions_fields cjsOptions_fields assign_fields getESBuildOptions_def)

theorem minification_follows_optimized_witness:
  "c_minifySyntax
     (o_esbuildOptions (esmOptions exampleWorld ''/pkg'' examplePkg False True (Some esm)
        \<lparr>dc_tsconfig = tsConfigPath exampleWorld,
           dc_dts = \<lparr>d_entry = entries examplePkg, d_resolve = True\<rparr>\<rparr>) exampleBuildOptions) \<and>
   c_minifyWhitespace
     (o_esbuildOptions (esmOptions exampleWorld ''/pkg'' examplePkg False True (Some esm)
        \<lparr>dc_tsconfig = tsConfigPath exampleWorld,
           dc_dts = \<lparr>d_entry = entries examplePkg, d_resolve = True\<rparr>\<rparr>) exampleBuildOptions) \<and>
   \<not> c_minifyIdentifiers
     (o_esbuildOptions (esmOptions exampleWorld ''/pkg'' examplePkg False True (Some esm)
        \<lparr>dc_tsconfig = tsConfigPath exampleWorld,
           dc_dts = \<lparr>d_entry = entries examplePkg, d_resolve = True\<rparr>\<rparr>) exampleBuildOptions)"
  using minification_follows_optimized[OF example_manifest example_dispatched_optimized_0,
      where c = exampleBuildOptions and cwd = "''/pkg''"]
  by (simp add: hasFlag_optimized)

lemma nodeInternals_empty: "nodeInternals = []"
  by (simp add: nodeInternals_def Let_def)

text \<open>
  C2: when the platform is \<open>node\<close>, the external list of the ESM task is the package's
  own name, the extra externals, the names of the runtime dependencies and the names of
  the peer dependencies, and nothing more: \<open>nodeInternals\<close>, which the script appends,
  is the empty list, because its reducer drops what \<open>concat\<close> returns.  No built-in
  module is in the list unless the manifest names it.
\<close>

theorem esm_external_on_node:
  assumes "w_readJson w (join [cwd, ''package.json'']) = Inr pkg"
    and "Dispatched i t \<in> set (fst (run w cwd flags))"
    and "Build opts \<in> set t"
    and "o_format opts = [esm]"
    and "bc_platform (pj_bundler pkg) = Some node"
  shows "o_external opts =
           [pj_name pkg] @ extraExternals pkg @ map fst (case pj_dependencies pkg of None \<Rightarrow> [] | Some d \<Rightarrow> d) @
           map fst (case pj_peerDependencies pkg of None \<Rightarrow> [] | Some d \<Rightarrow> d)"
  using assms(1-3)
  by (cases rule: build_cases)
     (simp_all add: esmOptions_fields cjsOptions_fields assms(5) nodeInternals_empty externals_def
        keys_def split: option.splits)

theorem esm_external_on_node_witness:
  "o_external (esmOptions exampleWorld ''/pkg'' examplePkg False False None
      \<lparr>dc_tsconfig = tsConfigPath exampleWorld,
         dc_dts = \<lparr>d_entry = entries examplePkg, d_resolve = True\<rparr>\<rparr>) =
     [''pkg'', ''fsevents'', ''lodash'', ''react'']"
proof -
  have d0: "Dispatched 0 (runTasks exampleWorld ''/pkg'' [] examplePkg ! 0)
          \<in> set (fst (run exampleWorld ''/pkg'' []))"
    by (rule example_tasks_nth[OF example_tasks_length(1)])
  have p: "bc_platform (pj_bundler examplePkg) = Some node"
    by (simp add: examplePkg_def)
  from esm_external_on_node[OF example_manifest d0[unfolded example_tasks_0] _ _ p]
  show ?thesis
    by (simp add: esmOptions_fields extraExternals_def examplePkg_def)
qed


section \<open>The tasks of a run\<close>

text \<open>The options of the builds among some tasks, and the files the tasks write.\<close>

definition buildsOf :: "Task list \<Rightarrow> Options list" where
  "buildsOf ts =
     concat (map (\<lambda>t. concat (map (\<lambda>op. case op of Build opts \<Rightarrow> [opts] | _ \<Rightarrow> []) t)) ts)"

definition writesOf :: "Task list \<Rightarrow> (string \<times> string) list" where
  "writesOf ts =
     concat (map (\<lambda>t. concat (map (\<lambda>op. case op of WriteFile p c e \<Rightarrow> [(p, c)] | _ \<Rightarrow> []) t)) ts)"

lemma buildsOf_append: "buildsOf (xs @ ys) = buildsOf xs @ buildsOf ys"
  by (simp add: buildsOf_def)

lemma writesOf_append: "writesOf (xs @ ys) = writesOf xs @ writesOf ys"
  by (simp add: writesOf_def)

lemma buildsOf_mappers: "buildsOf (map (generateDTSMapperFile w) es) = []"
  by (induction es) (simp_all add: buildsOf_def generateDTSMapperFile_def Let_def)

lemma buildsOf_tasks:
  "buildsOf (tasks w cwd pkg watch optimized dtsBuild dtsConfig ex) =
     (if esm \<in> set (formats pkg)
      then [esmOptions w cwd pkg watch optimized dtsBuild dtsConfig] else []) @
     (if cjs \<in> set (formats pkg)
      then [cjsOptions w cwd pkg watch optimized dtsBuild dtsConfig] else [])"
  by (simp add: tasks_def buildsOf_append buildsOf_mappers) (simp add: buildsOf_def)

lemma writesOf_tasks:
  "writesOf (tasks w cwd pkg watch optimized dtsBuild dtsConfig ex) =
     (if ex \<and> \<not> optimized then writesOf (map (generateDTSMapperFile w) (entries pkg)) else [])"
  by (simp add: tasks_def writesOf_append) (simp add: writesOf_def)

section \<open>The completion message and the exit code\<close>

lemma hook_events_exec:
  "e \<in> set (fst (hook w cwd s dbg)) \<Longrightarrow>
   (\<exists>c. e = ExecStart c cwd dbg \<or> e = ExecEnd c cwd dbg \<or> e = ExecFailed c cwd dbg)"
  by (auto simp: hook_def skip_def exec_def split: option.splits if_splits)

lemma epilogue_log:
  assumes "snd (epilogue w cwd pkg) = Inr ()"
  shows "ConsoleLog ''done'' \<in> set (fst (epilogue w cwd pkg)) \<longleftrightarrow> w_env_CI w \<noteq> Some ''true''"
proof -
  have h: "snd (hook w cwd (bc_post (pj_bundler pkg)) (Some True)) = Inr ()"
    using assms by (auto simp: epilogue_def snd_andThen split: sum.splits)
  have n: "ConsoleLog ''done'' \<notin> set (fst (hook w cwd (bc_post (pj_bundler pkg)) (Some True)))"
    using hook_events_exec[of "ConsoleLog ''done''"] by auto
  show ?thesis
    using n by (auto simp: epilogue_def fst_andThen h)
qed

lemma run_fulfilled:
  assumes "snd (run w cwd flags) = Inr ()"
  obtains pkg where "w_readJson w (join [cwd, ''package.json'']) = Inr pkg"
    and "snd (prelude w cwd flags pkg) = Inr ()"
    and "snd (awaitAll w (enumerate 0 (runTasks w cwd flags pkg))) = Inr ()"
    and "snd (epilogue w cwd pkg) = Inr ()"
    and "fst (run w cwd flags) =
           ReadJson (join [cwd, ''package.json'']) # fst (prelude w cwd flags pkg) @
           map (\<lambda>(i, t). Dispatched i t) (enumerate 0 (runTasks w cwd flags pkg)) @
           fst (awaitAll w (enumerate 0 (runTasks w cwd flags pkg))) @
           fst (epilogue w cwd pkg)"
proof (cases "w_readJson w (join [cwd, ''package.json''])")
  case (Inl e)
  with assms run_no_manifest[OF Inl, of flags] show ?thesis by simp
next
  case (Inr pkg)
  from assms have a: "snd (prelude w cwd flags pkg) = Inr ()"
    and b: "snd (awaitAll w (enumerate 0 (runTasks w cwd flags pkg))) = Inr ()"
    and c: "snd (epilogue w cwd pkg) = Inr ()"
    by (auto simp: run_result[OF Inr] split: sum.splits)
  show ?thesis
    by (rule that[OF Inr a b c]) (simp add: run_trace[OF Inr] a b)
qed

lemma awaitAll_all_ok:
  "\<forall>op. w_perform w op = None \<Longrightarrow> snd (awaitAll w pending) = Inr ()"
proof (induction w pending rule: awaitAll_induct2)
  case (Empty w)
  show ?case by simp
next
  case (Settled w pending k i)
  then show ?case using awaitAll_Settled[of pending w i] by simp
next
  case (Fails w pending k i op rest e)
  then show ?case using awaitAll_Fails[of pending w i op rest e] by simp
next
  case (Step w pending k i op rest)
  from Step(5)[OF Step(6)]
  have "snd (awaitAll w (if rest = [] then removeAt (w_pick w pending mod length pending) pending
                         else pending[w_pick w pending mod length pending := (i, rest)])) = Inr ()"
    unfolding Step(2) .
  then show ?case
    using awaitAll_Step[OF Step(1) Step(3)[unfolded Step(2)] Step(4)] by simp
qed


lemma run_succeeds:
  assumes "w_readJson w (join [cwd, ''package.json'']) = Inr pkg"
    and "snd (prelude w cwd flags pkg) = Inr ()"
    and "\<forall>op. w_perform w op = None"
    and "snd (epilogue w cwd pkg) = Inr ()"
  shows "snd (run w cwd flags) = Inr ()"
  by (simp add: run_result[OF assms(1)] assms(2,4) awaitAll_all_ok[OF assms(3)])

text \<open>
  C9, amended: in a run that is fulfilled, \<open>done\<close> is logged exactly when the
  environment variable \<open>CI\<close> is not the string \<open>true\<close>.
\<close>

theorem done_is_logged_unless_CI_is_true:
  assumes "snd (run w cwd flags) = Inr ()"
  shows "ConsoleLog ''done'' \<in> set (fst (run w cwd flags)) \<longleftrightarrow> w_env_CI w \<noteq> Some ''true''"
proof -
  from assms obtain pkg where
    e: "snd (epilogue w cwd pkg) = Inr ()" and
    tr: "fst (run w cwd flags) =
           ReadJson (join [cwd, ''package.json'']) # fst (prelude w cwd flags pkg) @
           map (\<lambda>(i, t). Dispatched i t) (enumerate 0 (runTasks w cwd flags pkg)) @
           fst (awaitAll w (enumerate 0 (runTasks w cwd flags pkg))) @
           fst (epilogue w cwd pkg)"
    by (rule run_fulfilled)
  have a: "ConsoleLog ''done'' \<notin> set (fst (prelude w cwd flags pkg))"
    using prelude_events[of "ConsoleLog ''done''"] by (auto simp: isSetupEvent_def)
  have b: "ConsoleLog ''done'' \<notin> set (fst (awaitAll w p))" for p
    using awaitAll_events[of "ConsoleLog ''done''"] by (auto simp: isTaskEvent_def)
  have c: "ConsoleLog ''done'' \<notin> (\<lambda>(i, t). Dispatched i t) ` X" for X
    by auto
  show ?thesis
    by (simp add: tr a b c epilogue_log[OF e])
qed

lemma example_epilogue:
  "epilogue (exampleWorld\<lparr>w_env_CI := ci\<rparr>) ''/pkg'' examplePkg =
     ([ExecStart (hookCommand exampleWorld ''./scripts/post.ts'') ''/pkg'' (Some True),
       ExecEnd (hookCommand exampleWorld ''./scripts/post.ts'') ''/pkg'' (Some True)] @
      (if ci \<noteq> Some ''true'' then [ConsoleLog ''done''] else []), Inr ())"
  by (simp add: epilogue_def hook_def exec_def andThen_def examplePkg_def exampleWorld_def
      hookCommand_def)

lemma example_run_fulfilled: "snd (run (exampleWorld\<lparr>w_env_CI := ci\<rparr>) ''/pkg'' flags) = Inr ()"
proof (rule run_succeeds)
  show "w_readJson (exampleWorld\<lparr>w_env_CI := ci\<rparr>) (join [''/pkg'', ''package.json'']) = Inr examplePkg"
    by (simp add: exampleWorld_def)
  show "snd (prelude (exampleWorld\<lparr>w_env_CI := ci\<rparr>) ''/pkg'' flags examplePkg) = Inr ()"
    by (simp add: prelude_def snd_andThen hook_def exec_def skip_def emptyDir_def
      exampleWorld_def examplePkg_def split: sum.splits)
  show "\<forall>op. w_perform (exampleWorld\<lparr>w_env_CI := ci\<rparr>) op = None"
    by (simp add: exampleWorld_def)
  show "snd (epilogue (exampleWorld\<lparr>w_env_CI := ci\<rparr>) ''/pkg'' examplePkg) = Inr ()"
    by (simp add: example_epilogue)
qed

theorem done_is_logged_unless_CI_is_true_witness:
  "ConsoleLog ''done'' \<notin> set (fst (run (exampleWorld\<lparr>w_env_CI := Some ''true''\<rparr>) ''/pkg'' [])) \<and>
   ConsoleLog ''done'' \<in> set (fst (run (exampleWorld\<lparr>w_env_CI := None\<rparr>) ''/pkg'' []))"
  using done_is_logged_unless_CI_is_true[OF example_run_fulfilled, of "Some ''true''" "[]"]
    done_is_logged_unless_CI_is_true[OF example_run_fulfilled, of None "[]"]
  by simp

text \<open>
  C9, as stated, fails for the true-like values \<open>TRUE\<close> and \<open>1\<close>: the run is
  fulfilled and \<open>done\<close> is logged.
\<close>

theorem true_like_CI_counterexample:
  "snd (run (exampleWorld\<lparr>w_env_CI := Some ''TRUE''\<rparr>) ''/pkg'' []) = Inr () \<and>
   ConsoleLog ''done'' \<in> set (fst (run (exampleWorld\<lparr>w_env_CI := Some ''TRUE''\<rparr>) ''/pkg'' [])) \<and>
   snd (run (exampleWorld\<lparr>w_env_CI := Some ''1''\<rparr>) ''/pkg'' []) = Inr () \<and>
   ConsoleLog ''done'' \<in> set (fst (run (exampleWorld\<lparr>w_env_CI := Some ''1''\<rparr>) ''/pkg'' []))"
proof -
  have "ConsoleLog ''done'' \<in> set (fst (run (exampleWorld\<lparr>w_env_CI := ci\<rparr>) ''/pkg'' []))"
    if "ci \<noteq> Some ''true''" for ci
  proof -
    have "snd (run (exampleWorld\<lparr>w_env_CI := ci\<rparr>) ''/pkg'' []) = Inr ()"
      by (rule example_run_fulfilled)
    then obtain pkg where
      m: "w_readJson (exampleWorld\<lparr>w_env_CI := ci\<rparr>) (join [''/pkg'', ''package.json'']) = Inr pkg"
      and tr: "fst (run (exampleWorld\<lparr>w_env_CI := ci\<rparr>) ''/pkg'' []) =
           ReadJson (join [''/pkg'', ''package.json'']) #
           fst (prelude (exampleWorld\<lparr>w_env_CI := ci\<rparr>) ''/pkg'' [] pkg) @
           map (\<lambda>(i, t). Dispatched i t)
             (enumerate 0 (runTasks (exampleWorld\<lparr>w_env_CI := ci\<rparr>) ''/pkg'' [] pkg)) @
           fst (awaitAll (exampleWorld\<lparr>w_env_CI := ci\<rparr>)
             (enumerate 0 (runTasks (exampleWorld\<lparr>w_env_CI := ci\<rparr>) ''/pkg'' [] pkg))) @
           fst (epilogue (exampleWorld\<lparr>w_env_CI := ci\<rparr>) ''/pkg'' pkg)"
      by (rule run_fulfilled)
    from m have "pkg = examplePkg" by (simp add: exampleWorld_def)
    then show ?thesis using that by (simp add: tr example_epilogue)
  qed
  then show ?thesis
    by (simp add: example_run_fulfilled)
qed


lemma awaitAll_done_ok: "Done i op \<in> set (fst (awaitAll w pending)) \<Longrightarrow> w_perform w op = None"
proof (induction w pending rule: awaitAll_induct2)
  case (Empty w)
  then show ?case by simp
next
  case (Settled w pending k j)
  then show ?case using awaitAll_Settled[of pending w j] by simp
next
  case (Fails w pending k j op' rest e)
  then show ?case using awaitAll_Fails[of pending w j op' rest e] by simp
next
  case (Step w pending k j op' rest)
  from Step(6) awaitAll_Step[OF Step(1) Step(3)[unfolded Step(2)] Step(4)]
  have "(i = j \<and> op = op') \<or>
        Done i op \<in> set (fst (awaitAll w (if rest = [] then removeAt k pending
                                           else pending[k := (j, rest)])))"
    unfolding Step(2) by auto
  then show ?case using Step(4) Step(5) by auto
qed

lemma allDone_member:
  "(i, t) \<in> set pending \<Longrightarrow> op \<in> set t \<Longrightarrow> Done i op \<in> set (allDone pending)"
  by (force simp: allDone_def)

lemma awaitAll_rejects:
  assumes "(i, t) \<in> set pending" and "op \<in> set t" and "w_perform w op = Some e"
  shows "\<exists>e'. snd (awaitAll w pending) = Inl e'"
proof (cases "snd (awaitAll w pending)")
  case (Inl e')
  then show ?thesis by blast
next
  case (Inr u)
  then have "mset (fst (awaitAll w pending)) = mset (allDone pending)"
    by (intro awaitAll_fulfilled) simp
  then have "set (fst (awaitAll w pending)) = set (allDone pending)"
    by (rule mset_eq_setD)
  with allDone_member[OF assms(1,2)] have "Done i op \<in> set (fst (awaitAll w pending))"
    by simp
  from awaitAll_done_ok[OF this] assms(3) show ?thesis by simp
qed

lemma hook_exec:
  "s \<noteq> [] \<Longrightarrow> hook w cwd (Some s) dbg = exec w (hookCommand w s) cwd dbg"
  by (simp add: hook_def)

lemma pre_hook_failure:
  assumes "bc_pre (pj_bundler pkg) = Some s" and "s \<noteq> []"
    and "w_exec w (hookCommand w s) cwd None = Some e"
  shows "prelude w cwd flags pkg =
           ([ExecStart (hookCommand w s) cwd None, ExecFailed (hookCommand w s) cwd None], Inl e)"
  by (simp add: prelude_def assms hook_exec exec_def andThen_def)

lemma post_hook_failure:
  assumes "bc_post (pj_bundler pkg) = Some s" and "s \<noteq> []"
    and "w_exec w (hookCommand w s) cwd (Some True) = Some e"
  shows "epilogue w cwd pkg =
           ([ExecStart (hookCommand w s) cwd (Some True),
             ExecFailed (hookCommand w s) cwd (Some True)], Inl e)"
  by (simp add: epilogue_def assms hook_exec exec_def andThen_def)

lemma main_eq:
  "main w =
     (case snd (run w (w_cwd w) (drop 2 (w_argv w))) of
        Inr u \<Rightarrow> (fst (run w (w_cwd w) (drop 2 (w_argv w))), 0)
      | Inl err \<Rightarrow>
          (fst (run w (w_cwd w) (drop 2 (w_argv w))) @
           (case err of Error stack \<Rightarrow> [ConsoleError stack] | NonError \<Rightarrow> []), 1))"
  by (cases "run w (w_cwd w) (drop 2 (w_argv w))") (simp add: main_def Let_def split: sum.splits)

lemma example_manifest_path: "join [''/pkg'', ''package.json''] = ''/pkg/package.json''"
  by code_simp

section \<open>The hooks\<close>

lemma takeWhile_until:
  assumes "\<forall>x \<in> set xs. x \<noteq> y"
  shows "takeWhile (\<lambda>e. e \<noteq> y) (xs @ y # ys) = xs"
  using assms by (simp add: takeWhile_append2)

lemma prelude_pre_ok:
  assumes "bc_pre (pj_bundler pkg) = Some s" and "s \<noteq> []"
    and "w_exec w (hookCommand w s) cwd None = None"
  shows "\<exists>rest. fst (prelude w cwd flags pkg) =
           ExecStart (hookCommand w s) cwd None # ExecEnd (hookCommand w s) cwd None # rest"
  by (simp add: prelude_def assms hook_exec exec_def fst_andThen)

lemma epilogue_post:
  assumes "bc_post (pj_bundler pkg) = Some s" and "s \<noteq> []"
  shows "\<exists>rest. fst (epilogue w cwd pkg) = ExecStart (hookCommand w s) cwd (Some True) # rest"
  by (cases "w_exec w (hookCommand w s) cwd (Some True)")
     (simp_all add: epilogue_def assms hook_exec exec_def fst_andThen)

text \<open>
  C8: with a pre-hook and a post-hook configured, no task is dispatched before the
  pre-hook process has ended, and none at all when it fails; and when the post-hook
  process starts, every operation of every dispatched task (each build and each write of
  a mapping file) has been completed before.  \<open>takeWhile\<close> gives the events before the
  first occurrence of an event.
\<close>

theorem hooks_are_barriers:
  assumes m: "w_readJson w (join [cwd, ''package.json'']) = Inr pkg"
    and pre: "bc_pre (pj_bundler pkg) = Some pre" "pre \<noteq> []"
    and post: "bc_post (pj_bundler pkg) = Some post" "post \<noteq> []"
  shows "\<not> list_ex isDispatched
           (takeWhile (\<lambda>e. e \<noteq> ExecEnd (hookCommand w pre) cwd None) (fst (run w cwd flags))) \<and>
         (w_exec w (hookCommand w pre) cwd None \<noteq> None \<longrightarrow>
            \<not> list_ex isDispatched (fst (run w cwd flags))) \<and>
         (ExecStart (hookCommand w post) cwd (Some True) \<in> set (fst (run w cwd flags)) \<longrightarrow>
            (\<forall>i t op. Dispatched i t \<in> set (fst (run w cwd flags)) \<and> op \<in> set t \<longrightarrow>
               Done i op \<in> set (takeWhile (\<lambda>e. e \<noteq> ExecStart (hookCommand w post) cwd (Some True))
                                  (fst (run w cwd flags)))))"
proof (intro conjI impI allI)
  show "\<not> list_ex isDispatched
           (takeWhile (\<lambda>e. e \<noteq> ExecEnd (hookCommand w pre) cwd None) (fst (run w cwd flags)))"
  proof (cases "w_exec w (hookCommand w pre) cwd None")
    case None
    from prelude_pre_ok[OF pre None] obtain rest where
      "fst (prelude w cwd flags pkg) =
         ExecStart (hookCommand w pre) cwd None # ExecEnd (hookCommand w pre) cwd None # rest"
      by blast
    then show ?thesis
      by (simp add: run_trace[OF m] isDispatched_def)
  next
    case (Some e)
    show ?thesis
      by (simp add: run_trace[OF m] pre_hook_failure[OF pre Some] isDispatched_def)
  qed
next
  assume "w_exec w (hookCommand w pre) cwd None \<noteq> None"
  then obtain e where "w_exec w (hookCommand w pre) cwd None = Some e"
    by auto
  then show "\<not> list_ex isDispatched (fst (run w cwd flags))"
    by (simp add: run_trace[OF m] pre_hook_failure[OF pre] isDispatched_def)
next
  fix i t op
  let ?post = "ExecStart (hookCommand w post) cwd (Some True)"
  let ?ts = "runTasks w cwd flags pkg"
  let ?A = "ReadJson (join [cwd, ''package.json'']) # fst (prelude w cwd flags pkg) @
            map (\<lambda>(i, t). Dispatched i t) (enumerate 0 ?ts) @
            fst (awaitAll w (enumerate 0 ?ts))"
  assume started: "?post \<in> set (fst (run w cwd flags))"
    and d: "Dispatched i t \<in> set (fst (run w cwd flags)) \<and> op \<in> set t"
  have a: "?post \<notin> set (fst (prelude w cwd flags pkg))"
    using prelude_events[of ?post] by (auto simp: isSetupEvent_def)
  have b: "?post \<notin> set (fst (awaitAll w p))" for p
    using awaitAll_events[of ?post] by (auto simp: isTaskEvent_def)
  have c: "?post \<notin> (\<lambda>(i, t). Dispatched i t) ` X" for X
    by auto
  from started have ok: "snd (prelude w cwd flags pkg) = Inr ()"
      "snd (awaitAll w (enumerate 0 ?ts)) = Inr ()"
    by (auto simp: run_trace[OF m] a b c split: sum.splits)
  then have tr: "fst (run w cwd flags) = ?A @ fst (epilogue w cwd pkg)"
    by (simp add: run_trace[OF m])
  from epilogue_post[OF post] obtain rest where
    ep: "fst (epilogue w cwd pkg) = ?post # rest"
    by blast
  have "\<forall>x \<in> set ?A. x \<noteq> ?post"
    using a b c by auto
  then have tw: "takeWhile (\<lambda>e. e \<noteq> ?post) (fst (run w cwd flags)) = ?A"
    unfolding tr ep by (rule takeWhile_until)
  from d have "i < length ?ts" "?ts ! i = t"
    by (simp_all add: dispatched_run[OF m])
  then have "(i, t) \<in> set (enumerate 0 ?ts)"
    by (simp add: in_set_enumerate_eq)
  with d have "Done i op \<in> set (allDone (enumerate 0 ?ts))"
    by (simp add: allDone_member)
  moreover have "set (fst (awaitAll w (enumerate 0 ?ts))) = set (allDone (enumerate 0 ?ts))"
    using awaitAll_fulfilled[OF ok(2)] by (rule mset_eq_setD)
  ultimately show "Done i op \<in> set (takeWhile (\<lambda>e. e \<noteq> ?post) (fst (run w cwd flags)))"
    unfolding tw by simp
qed


lemma exampleWorld_CI: "exampleWorld\<lparr>w_env_CI := None\<rparr> = exampleWorld"
  by (simp add: exampleWorld_def)

lemma example_post_started:
  "ExecStart (hookCommand exampleWorld ''./scripts/post.ts'') ''/pkg'' (Some True)
     \<in> set (fst (run exampleWorld ''/pkg'' flags))"
proof -
  have "snd (run exampleWorld ''/pkg'' flags) = Inr ()"
    using example_run_fulfilled[of None flags] by (simp add: exampleWorld_CI)
  then obtain pkg where
    m: "w_readJson exampleWorld (join [''/pkg'', ''package.json'']) = Inr pkg"
    and tr: "fst (run exampleWorld ''/pkg'' flags) =
           ReadJson (join [''/pkg'', ''package.json'']) #
           fst (prelude exampleWorld ''/pkg'' flags pkg) @
           map (\<lambda>(i, t). Dispatched i t) (enumerate 0 (runTasks exampleWorld ''/pkg'' flags pkg)) @
           fst (awaitAll exampleWorld (enumerate 0 (runTasks exampleWorld ''/pkg'' flags pkg))) @
           fst (epilogue exampleWorld ''/pkg'' pkg)"
    by (rule run_fulfilled)
  from m have "pkg = examplePkg"
    by (simp add: exampleWorld_def)
  then show ?thesis
    using example_epilogue[of None] by (simp add: tr exampleWorld_CI)
qed

theorem hooks_are_barriers_witness:
  "\<not> list_ex isDispatched
      (takeWhile (\<lambda>e. e \<noteq> ExecEnd (hookCommand exampleWorld ''./scripts/pre.ts'') ''/pkg'' None)
         (fst (run exampleWorld ''/pkg'' []))) \<and>
   Done 1 (Build (cjsOptions exampleWorld ''/pkg'' examplePkg False False None
        \<lparr>dc_tsconfig = tsConfigPath exampleWorld,
           dc_dts = \<lparr>d_entry = entries examplePkg, d_resolve = True\<rparr>\<rparr>))
     \<in> set (takeWhile
         (\<lambda>e. e \<noteq> ExecStart (hookCommand exampleWorld ''./scripts/post.ts'') ''/pkg'' (Some True))
         (fst (run exampleWorld ''/pkg'' [])))"
proof -
  have pre: "bc_pre (pj_bundler examplePkg) = Some ''./scripts/pre.ts''" "''./scripts/pre.ts'' \<noteq> []"
    and post: "bc_post (pj_bundler examplePkg) = Some ''./scripts/post.ts''" "''./scripts/post.ts'' \<noteq> []"
    by (simp_all add: examplePkg_def)
  have d1: "Dispatched 1 (runTasks exampleWorld ''/pkg'' [] examplePkg ! 1)
          \<in> set (fst (run exampleWorld ''/pkg'' []))"
    by (rule example_tasks_nth[OF example_tasks_length(2)])
  note t = hooks_are_barriers[OF example_manifest pre post, of "''/pkg''" "[]"]
  from t example_post_started[of "[]"]
  have "\<forall>i t op. Dispatched i t \<in> set (fst (run exampleWorld ''/pkg'' [])) \<and> op \<in> set t \<longrightarrow>
          Done i op \<in> set (takeWhile
            (\<lambda>e. e \<noteq> ExecStart (hookCommand exampleWorld ''./scripts/post.ts'') ''/pkg'' (Some True))
            (fst (run exampleWorld ''/pkg'' [])))"
    by blast
  from this[rule_format, OF conjI, OF d1[unfolded example_tasks_1]] t
  show ?thesis
    by simp
qed


section \<open>The tasks dispatched in a run\<close>

text \<open>
  The tasks that a trace shows as dispatched, in the order of their dispatch.  In a run
  they are the tasks of the array \<open>tasks\<close>, when the run gets as far as pushing them.
\<close>

definition dispatchedTasks :: "Event list \<Rightarrow> Task list" where
  "dispatchedTasks tr = concat (map (\<lambda>ev. case ev of Dispatched i t \<Rightarrow> [t] | _ \<Rightarrow> []) tr)"

lemma dispatchedTasks_Nil [simp]: "dispatchedTasks [] = []"
  by (simp add: dispatchedTasks_def)

lemma dispatchedTasks_append:
  "dispatchedTasks (xs @ ys) = dispatchedTasks xs @ dispatchedTasks ys"
  by (simp add: dispatchedTasks_def)

lemma dispatchedTasks_other: "\<forall>e \<in> set tr. \<not> isDispatched e \<Longrightarrow> dispatchedTasks tr = []"
  by (induction tr) (auto simp: dispatchedTasks_def isDispatched_def split: Event.splits)

lemma dispatchedTasks_enumerate:
  "dispatchedTasks (map (\<lambda>(i, t). Dispatched i t) (enumerate n ts)) = ts"
  by (induction ts arbitrary: n) (simp_all add: dispatchedTasks_def)

lemma dispatchedTasks_run:
  assumes "w_readJson w (join [cwd, ''package.json'']) = Inr pkg"
  shows "dispatchedTasks (fst (run w cwd flags)) =
           (case snd (prelude w cwd flags pkg) of
              Inl e \<Rightarrow> []
            | Inr u \<Rightarrow> runTasks w cwd flags pkg)"
proof -
  have a: "dispatchedTasks (fst (prelude w cwd flags pkg)) = []"
    by (rule dispatchedTasks_other) (auto dest: prelude_events simp: isSetupEvent_def isDispatched_def
        split: Event.splits)
  have b: "dispatchedTasks (fst (awaitAll w p)) = []" for p
    by (rule dispatchedTasks_other) (auto dest: awaitAll_events simp: isTaskEvent_def isDispatched_def
        split: Event.splits)
  have c: "dispatchedTasks (fst (epilogue w cwd pkg)) = []"
    by (rule dispatchedTasks_other) (auto dest: epilogue_events)
  have d: "dispatchedTasks (ReadJson f # tr) = dispatchedTasks tr" for f tr
    by (simp add: dispatchedTasks_def)
  show ?thesis
    by (simp add: run_trace[OF assms] d dispatchedTasks_append a b c dispatchedTasks_enumerate
        split: sum.splits)
qed

text \<open>
  The prelude is fulfilled when the pre-hook, if there is one, and the reset, if it is
  asked for, do not fail; the epilogue, when the post-hook does not fail.
\<close>

lemma prelude_ok:
  assumes "\<And>s. bc_pre (pj_bundler pkg) = Some s \<Longrightarrow> s \<noteq> [] \<Longrightarrow>
             w_exec w (hookCommand w s) cwd None = None"
    and "hasFlag flags ''reset'' \<Longrightarrow> w_emptyDir w (join [w_cwd w, ''dist'']) = None"
  shows "snd (prelude w cwd flags pkg) = Inr ()"
proof -
  have h: "snd (hook w cwd (bc_pre (pj_bundler pkg)) None) = Inr ()"
    using assms(1) by (auto simp: hook_def skip_def exec_def split: option.splits)
  have r: "snd (if hasFlag flags ''reset'' then emptyDir w (join [w_cwd w, ''dist'']) else skip) = Inr ()"
    using assms(2) by (simp add: emptyDir_def skip_def)
  show ?thesis
    by (simp add: prelude_def snd_andThen h r)
qed

lemma awaitAll_done_member:
  "Done i op \<in> set (fst (awaitAll w pending)) \<Longrightarrow> \<exists>t. (i, t) \<in> set pending \<and> op \<in> set t"
proof (induction w pending rule: awaitAll_induct2)
  case (Empty w)
  then show ?case by simp
next
  case (Settled w pending k j)
  then have "Done i op \<in> set (fst (awaitAll w (removeAt k pending)))"
    using awaitAll_Settled[of pending w j] by simp
  with Settled obtain t where "(i, t) \<in> set (removeAt k pending)" "op \<in> set t"
    by blast
  then show ?case
    by (auto simp: removeAt_def dest: in_set_takeD in_set_dropD)
next
  case (Fails w pending k j op' rest e)
  then show ?case using awaitAll_Fails[of pending w j op' rest e] by simp
next
  case (Step w pending k j op' rest)
  then have k: "k < length pending" by simp
  then have mem: "(j, op' # rest) \<in> set pending"
    using Step(3) by (metis nth_mem)
  from Step(6) awaitAll_Step[OF Step(1) Step(3)[unfolded Step(2)] Step(4)]
  have "(i = j \<and> op = op') \<or>
        Done i op \<in> set (fst (awaitAll w (if rest = [] then removeAt k pending
                                           else pending[k := (j, rest)])))"
    unfolding Step(2) by auto
  then show ?case
  proof
    assume "i = j \<and> op = op'"
    with mem show ?thesis by auto
  next
    assume "Done i op \<in> set (fst (awaitAll w (if rest = [] then removeAt k pending
                                           else pending[k := (j, rest)])))"
    from Step(5)[OF this] obtain t where
      t: "(i, t) \<in> set (if rest = [] then removeAt k pending else pending[k := (j, rest)])"
        "op \<in> set t"
      by blast
    show ?thesis
    proof (cases "rest = []")
      case True
      with t show ?thesis
        by (auto simp: removeAt_def dest: in_set_takeD in_set_dropD)
    next
      case False
      with t have "(i, t) = (j, rest) \<or> (i, t) \<in> set pending"
        using set_update_subset_insert[of pending k "(j, rest)"] by auto
      with t(2) mem show ?thesis by auto
    qed
  qed
qed

lemma awaitAll_rejected:
  "snd (awaitAll w pending) = Inl e \<Longrightarrow>
   \<exists>i op. Failed i op \<in> set (fst (awaitAll w pending)) \<and> w_perform w op = Some e"
proof (induction w pending rule: awaitAll_induct2)
  case (Empty w)
  then show ?case by simp
next
  case (Settled w pending k j)
  then show ?case using awaitAll_Settled[of pending w j] by simp
next
  case (Fails w pending k j op' rest e')
  then show ?case using awaitAll_Fails[of pending w j op' rest e'] by auto
next
  case (Step w pending k j op' rest)
  note unf = awaitAll_Step[OF Step(1) Step(3)[unfolded Step(2)] Step(4), folded Step(2)]
  from Step(6) have "snd (awaitAll w (if rest = [] then removeAt k pending
                                      else pending[k := (j, rest)])) = Inl e"
    unfolding unf by simp
  from Step(5)[OF this] show ?case
    unfolding unf by auto
qed

lemma awaitAll_cong:
  "w_pick w' = w_pick w \<Longrightarrow> w_perform w' = w_perform w \<Longrightarrow>
   awaitAll w' pending = awaitAll w pending"
proof (induction w pending rule: awaitAll_induct2)
  case (Empty w)
  show ?case by simp
next
  case (Settled w pending k j)
  then show ?case
    using awaitAll_Settled[of pending w j] awaitAll_Settled[of pending w' j] by simp
next
  case (Fails w pending k j op' rest e')
  then show ?case
    using awaitAll_Fails[of pending w j op' rest e'] awaitAll_Fails[of pending w' j op' rest e']
    by simp
next
  case (Step w pending k j op' rest)
  have pk: "w_pick w' pending mod length pending = k"
    using Step(2) Step.prems(1) by simp
  have pf: "w_perform w' op' = None"
    using Step(4) Step.prems(2) by simp
  note a = awaitAll_Step[OF Step(1) Step(3)[unfolded Step(2)] Step(4), folded Step(2)]
  note b = awaitAll_Step[of pending w' j op' rest, unfolded pk, OF Step(1) Step(3) pf]
  show ?case
    unfolding a b using Step(5)[OF Step.prems] by simp
qed

lemma epilogue_ok:
  assumes "\<And>s. bc_post (pj_bundler pkg) = Some s \<Longrightarrow> s \<noteq> [] \<Longrightarrow>
             w_exec w (hookCommand w s) cwd (Some True) = None"
  shows "snd (epilogue w cwd pkg) = Inr ()"
proof -
  have h: "snd (hook w cwd (bc_post (pj_bundler pkg)) (Some True)) = Inr ()"
    using assms by (auto simp: hook_def skip_def exec_def split: option.splits)
  show ?thesis
    by (simp add: epilogue_def snd_andThen h)
qed

lemma buildsOf_runTasks:
  "buildsOf (runTasks w cwd flags pkg) =
     (if esm \<in> set (formats pkg)
      then [esmOptions w cwd pkg (hasFlag flags ''watch'') (hasFlag flags ''optimized'')
              (case formats pkg of
                 [] \<Rightarrow> None
               | f # _ \<Rightarrow> if hasFlag flags ''optimized'' \<and> w_pathExists w (tsConfigPath w)
                          then Some f else None)
              \<lparr>dc_tsconfig = tsConfigPath w,
                 dc_dts = \<lparr>d_entry = entries pkg, d_resolve = True\<rparr>\<rparr>] else []) @
     (if cjs \<in> set (formats pkg)
      then [cjsOptions w cwd pkg (hasFlag flags ''watch'') (hasFlag flags ''optimized'')
              (case formats pkg of
                 [] \<Rightarrow> None
               | f # _ \<Rightarrow> if hasFlag flags ''optimized'' \<and> w_pathExists w (tsConfigPath w)
                          then Some f else None)
              \<lparr>dc_tsconfig = tsConfigPath w,
                 dc_dts = \<lparr>d_entry = entries pkg, d_resolve = True\<rparr>\<rparr>] else [])"
  unfolding runTasks_eq buildsOf_tasks ..

section \<open>Other manifests in the example world\<close>

text \<open>The example world with another manifest at the package root.\<close>

definition exampleWorldWith :: "PackageJson \<Rightarrow> World" where
  "exampleWorldWith pkg = exampleWorld\<lparr>w_readJson := (\<lambda>f. Inr pkg)\<rparr>"

lemma exampleWorldWith_manifest: "w_readJson (exampleWorldWith pkg) f = Inr pkg"
  by (simp add: exampleWorldWith_def)

lemma exampleWorldWith_exec: "w_exec (exampleWorldWith pkg) c d dbg = None"
  by (simp add: exampleWorldWith_def exampleWorld_def)

lemma exampleWorldWith_emptyDir: "w_emptyDir (exampleWorldWith pkg) d = None"
  by (simp add: exampleWorldWith_def exampleWorld_def)

lemma exampleWorldWith_prelude: "snd (prelude (exampleWorldWith pkg) cwd flags pkg) = Inr ()"
  by (rule prelude_ok) (simp_all add: exampleWorldWith_def exampleWorld_def)

lemma exampleWorldWith_dispatched:
  "dispatchedTasks (fst (run (exampleWorldWith pkg) cwd flags)) =
     runTasks (exampleWorldWith pkg) cwd flags pkg"
  by (simp add: dispatchedTasks_run[OF exampleWorldWith_manifest] exampleWorldWith_prelude)

lemma exampleWorldWith_fulfilled: "snd (run (exampleWorldWith pkg) cwd flags) = Inr ()"
proof (rule run_succeeds)
  show "w_readJson (exampleWorldWith pkg) (join [cwd, ''package.json'']) = Inr pkg"
    by (rule exampleWorldWith_manifest)
  show "snd (prelude (exampleWorldWith pkg) cwd flags pkg) = Inr ()"
    by (rule exampleWorldWith_prelude)
  show "\<forall>op. w_perform (exampleWorldWith pkg) op = None"
    by (simp add: exampleWorldWith_def exampleWorld_def)
  show "snd (epilogue (exampleWorldWith pkg) cwd pkg) = Inr ()"
    by (rule epilogue_ok) (simp add: exampleWorldWith_def exampleWorld_def)
qed

section \<open>The entries and the patterns of the compilation tasks\<close>

definition presetExtensionPkg :: PackageJson where
  "presetExtensionPkg =
     examplePkg\<lparr>pj_bundler := (pj_bundler examplePkg)\<lparr>bc_entries := Some [''./src/x.preset'']\<rparr>\<rparr>"

lemma presetExtension_entries:
  "nonPresetEntries ''/pkg'' presetExtensionPkg = [''/pkg/src/x.preset'']"
  "allEntries ''/pkg'' presetExtensionPkg = [''/pkg/src/x.preset'']"
  "p_base (parse ''/pkg/src/x.preset'') = ''x.preset''"
  by code_simp+

lemma presetExtension_formats: "formats presetExtensionPkg = [esm, cjs]"
  by (simp add: formats_def presetExtensionPkg_def examplePkg_def)

text \<open>
  C1, as stated, fails: the entry \<open>./src/x.preset\<close> has the file name \<open>x.preset\<close>, which
  contains \<open>preset\<close>, and it is in the entry list of the ESM task all the same.
\<close>

theorem preset_in_extension_counterexample:
  "bc_entries (pj_bundler presetExtensionPkg) = Some [''./src/x.preset''] \<and>
   p_base (parse ''/pkg/src/x.preset'') = ''x.'' @ ''preset'' \<and>
   map o_format (buildsOf (dispatchedTasks
     (fst (run (exampleWorldWith presetExtensionPkg) ''/pkg'' [])))) = [[esm], [cjs]] \<and>
   map o_entry (buildsOf (dispatchedTasks
     (fst (run (exampleWorldWith presetExtensionPkg) ''/pkg'' [])))) =
     [[''/pkg/src/x.preset''], [''/pkg/src/x.preset'']]"
  by (simp add: exampleWorldWith_dispatched buildsOf_runTasks presetExtension_formats
      esmOptions_fields cjsOptions_fields presetExtension_entries)
     (simp add: presetExtensionPkg_def)

text \<open>
  C1, amended: of the entry lists passed to the compilation tasks, the one of the
  CommonJS task holds every entry of the manifest, resolved against the package root,
  and the one of the ESM task holds those of them whose name does not contain
  \<open>preset\<close>.  The name is the \<open>name\<close> that \<open>path.parse\<close> gives for the resolved
  entry: its file name without the last extension.
\<close>

theorem entries_named_preset_are_cjs_only:
  assumes "w_readJson w (join [cwd, ''package.json'']) = Inr pkg"
    and "Dispatched i t \<in> set (fst (run w cwd flags))"
    and "Build opts \<in> set t"
    and "es = (case bc_entries (pj_bundler pkg) of None \<Rightarrow> [] | Some l \<Rightarrow> l)"
  shows "(o_format opts = [esm] \<or> o_format opts = [cjs]) \<and>
         (o_format opts = [cjs] \<longrightarrow> o_entry opts = map (\<lambda>e. slash (join [cwd, e])) es) \<and>
         (o_format opts = [esm] \<longrightarrow>
            o_entry opts =
              filter (\<lambda>f. \<not> (\<exists>a b. p_name (parse f) = a @ ''preset'' @ b))
                (map (\<lambda>e. slash (join [cwd, e])) es))"
proof -
  have es: "entries pkg = es"
    by (simp add: entries_def assms(4))
  from assms(1-3) show ?thesis
  proof (cases rule: build_cases)
    case (1 dtsBuild dtsConfig)
    then show ?thesis
      unfolding includes_str_iff[symmetric]
      by (simp add: esmOptions_fields nonPresetEntries_def allEntries_def es)
  next
    case (2 dtsBuild dtsConfig)
    then show ?thesis
      by (simp add: cjsOptions_fields allEntries_def es)
  qed
qed

lemma example_resolved_entries:
  "map (\<lambda>e. slash (join [''/pkg'', e])) [''./src/index.ts'', ''./src/presets/foo-preset.ts''] =
     [''/pkg/src/index.ts'', ''/pkg/src/presets/foo-preset.ts'']"
  by code_simp

lemma example_entry_names:
  "includes_str (p_name (parse ''/pkg/src/index.ts'')) ''preset'' = False"
  "includes_str (p_name (parse ''/pkg/src/presets/foo-preset.ts'')) ''preset'' = True"
  by code_simp+

theorem entries_named_preset_are_cjs_only_witness:
  "o_entry (esmOptions exampleWorld ''/pkg'' examplePkg False False None
      \<lparr>dc_tsconfig = tsConfigPath exampleWorld,
         dc_dts = \<lparr>d_entry = entries examplePkg, d_resolve = True\<rparr>\<rparr>) = [''/pkg/src/index.ts''] \<and>
   o_entry (cjsOptions exampleWorld ''/pkg'' examplePkg False False None
      \<lparr>dc_tsconfig = tsConfigPath exampleWorld,
         dc_dts = \<lparr>d_entry = entries examplePkg, d_resolve = True\<rparr>\<rparr>) =
     [''/pkg/src/index.ts'', ''/pkg/src/presets/foo-preset.ts'']"
proof -
  have d0: "Dispatched 0 (runTasks exampleWorld ''/pkg'' [] examplePkg ! 0)
          \<in> set (fst (run exampleWorld ''/pkg'' []))"
    by (rule example_tasks_nth[OF example_tasks_length(1)])
  have d1: "Dispatched 1 (runTasks exampleWorld ''/pkg'' [] examplePkg ! 1)
          \<in> set (fst (run exampleWorld ''/pkg'' []))"
    by (rule example_tasks_nth[OF example_tasks_length(2)])
  have es: "[''./src/index.ts'', ''./src/presets/foo-preset.ts''] =
            (case bc_entries (pj_bundler examplePkg) of None \<Rightarrow> [] | Some l \<Rightarrow> l)"
    by (simp add: examplePkg_def)
  from entries_named_preset_are_cjs_only[OF example_manifest d0[unfolded example_tasks_0] _ es]
    entries_named_preset_are_cjs_only[OF example_manifest d1[unfolded example_tasks_1] _ es]
  show ?thesis
    unfolding includes_str_iff[symmetric] example_resolved_entries
    by (simp add: esmOptions_fields(1) cjsOptions_fields(1) example_entry_names)
qed







section \<open>The files written in a run\<close>

text \<open>The files written in a trace: path and content of each completed \<open>writeFile\<close>.\<close>

definition written :: "Event list \<Rightarrow> (string \<times> string) list" where
  "written tr =
     concat (map (\<lambda>ev. case ev of
                          Done i op \<Rightarrow> (case op of WriteFile p c enc \<Rightarrow> [(p, c)] | _ \<Rightarrow> [])
                        | _ \<Rightarrow> []) tr)"

lemma written_append: "written (xs @ ys) = written xs @ written ys"
  by (simp add: written_def)

lemma written_other: "\<forall>e \<in> set tr. \<not> isTaskEvent e \<Longrightarrow> written tr = []"
  by (induction tr) (auto simp: written_def isTaskEvent_def split: Event.splits)

lemma mset_concat_map:
  "mset xs = mset ys \<Longrightarrow> mset (concat (map g xs)) = mset (concat (map g ys))"
proof -
  assume a: "mset xs = mset ys"
  have "mset (concat (map g zs)) = (\<Sum>x\<in>#mset zs. mset (g x))" for zs
    by (induction zs) simp_all
  with a show ?thesis by simp
qed

lemma written_allDone: "written (allDone pending) = writesOf (map snd pending)"
proof (induction pending)
  case Nil
  show ?case by (simp add: written_def allDone_def writesOf_def)
next
  case (Cons p pending)
  obtain i t where p: "p = (i, t)" by (cases p)
  have "written (map (Done i) t) = writesOf [t]"
    by (induction t) (simp_all add: written_def writesOf_def split: Op.splits)
  moreover have "allDone (p # pending) = map (Done i) t @ allDone pending"
    by (simp add: p allDone_def)
  moreover have "writesOf (map snd (p # pending)) = writesOf [t] @ writesOf (map snd pending)"
    using writesOf_append[of "[t]" "map snd pending"] by (simp add: p)
  ultimately show ?case
    using Cons by (simp add: written_append)
qed

lemma written_run:
  assumes "w_readJson w (join [cwd, ''package.json'']) = Inr pkg"
    and "snd (run w cwd flags) = Inr ()"
  shows "mset (written (fst (run w cwd flags))) = mset (writesOf (runTasks w cwd flags pkg))"
proof -
  from assms(2) obtain pkg' where
    m: "w_readJson w (join [cwd, ''package.json'']) = Inr pkg'"
    and ok: "snd (awaitAll w (enumerate 0 (runTasks w cwd flags pkg'))) = Inr ()"
    and tr: "fst (run w cwd flags) =
           ReadJson (join [cwd, ''package.json'']) # fst (prelude w cwd flags pkg') @
           map (\<lambda>(i, t). Dispatched i t) (enumerate 0 (runTasks w cwd flags pkg')) @
           fst (awaitAll w (enumerate 0 (runTasks w cwd flags pkg'))) @
           fst (epilogue w cwd pkg')"
    by (rule run_fulfilled)
  from m assms(1) have pkg: "pkg' = pkg" by simp
  let ?ts = "runTasks w cwd flags pkg"
  have a: "written (fst (prelude w cwd flags pkg)) = []"
    by (rule written_other) (auto dest: prelude_events simp: isSetupEvent_def isTaskEvent_def
        split: Event.splits)
  have b: "written (map (\<lambda>(i, t). Dispatched i t) (enumerate 0 ?ts)) = []"
    by (rule written_other) (auto simp: isTaskEvent_def)
  have c: "written (fst (epilogue w cwd pkg)) = []"
    by (rule written_other) (auto dest: epilogue_events)
  have d: "written [ReadJson (join [cwd, ''package.json''])] = []"
    by (simp add: written_def)
  have "written (fst (run w cwd flags)) = written (fst (awaitAll w (enumerate 0 ?ts)))"
    using written_append[of "[ReadJson (join [cwd, ''package.json''])]"]
    by (simp add: tr pkg written_append a b c d)
  moreover have "mset (written (fst (awaitAll w (enumerate 0 ?ts)))) =
                 mset (written (allDone (enumerate 0 ?ts)))"
    unfolding written_def
    by (rule mset_concat_map) (rule awaitAll_fulfilled[OF ok[unfolded pkg]])
  ultimately show ?thesis
    by (simp add: written_allDone)
qed

lemma written_mem:
  "(p, c) \<in> set (written tr) \<longleftrightarrow> (\<exists>i enc. Done i (WriteFile p c enc) \<in> set tr)"
proof (induction tr)
  case Nil
  show ?case by (simp add: written_def)
next
  case (Cons ev tr)
  have "written (ev # tr) = written [ev] @ written tr"
    using written_append[of "[ev]" tr] by simp
  moreover have "(p, c) \<in> set (written [ev]) \<longleftrightarrow> (\<exists>i enc. ev = Done i (WriteFile p c enc))"
    by (auto simp: written_def split: Event.splits Op.splits)
  ultimately show ?case
    using Cons by auto
qed

lemma writesOf_mem:
  "(p, c) \<in> set (writesOf ts) \<longleftrightarrow> (\<exists>t \<in> set ts. \<exists>enc. WriteFile p c enc \<in> set t)"
  by (auto simp: writesOf_def split: Op.splits)

lemma written_run_subset:
  assumes "w_readJson w (join [cwd, ''package.json'']) = Inr pkg"
  shows "set (written (fst (run w cwd flags))) \<subseteq> set (writesOf (runTasks w cwd flags pkg))"
proof
  fix x
  assume x: "x \<in> set (written (fst (run w cwd flags)))"
  obtain p c where pc: "x = (p, c)" by (cases x)
  from x obtain i enc where d: "Done i (WriteFile p c enc) \<in> set (fst (run w cwd flags))"
    unfolding pc written_mem by blast
  let ?ev = "Done i (WriteFile p c enc)"
  let ?ts = "runTasks w cwd flags pkg"
  have a: "?ev \<notin> set (fst (prelude w cwd flags pkg))"
    using prelude_events[of ?ev] by (auto simp: isSetupEvent_def)
  have b: "?ev \<notin> (\<lambda>(i, t). Dispatched i t) ` X" for X
    by auto
  have c: "?ev \<notin> set (fst (epilogue w cwd pkg))"
    using epilogue_events[of ?ev] by (auto simp: isTaskEvent_def)
  from d have "?ev \<in> set (fst (awaitAll w (enumerate 0 ?ts)))"
    by (auto simp: run_trace[OF assms] a b c split: sum.splits)
  from awaitAll_done_member[OF this] obtain t where
    "(i, t) \<in> set (enumerate 0 ?ts)" "WriteFile p c enc \<in> set t"
    by blast
  then have "t \<in> set ?ts" "WriteFile p c enc \<in> set t"
    by (auto simp: in_set_enumerate_eq)
  then show "x \<in> set (writesOf ?ts)"
    unfolding pc writesOf_mem by blast
qed

section \<open>Formats and declarations\<close>

text \<open>
  C3: in a run with the \<open>optimized\<close> flag, for a package with a type configuration
  at its root and a non-empty format list (the requested one, or both formats when the
  manifest requests none), no task that is dispatched writes a mapping file and no
  file is written; and once the manifest is read and neither the pre-hook nor the reset
  fails, exactly one of the compilation tasks dispatched carries the declaration
  options: the one for the first format of the list.
\<close>

theorem optimized_run_attaches_declarations_to_first_format:
  assumes "w_readJson w (join [cwd, ''package.json'']) = Inr pkg"
    and "\<And>s. bc_pre (pj_bundler pkg) = Some s \<Longrightarrow> s \<noteq> [] \<Longrightarrow>
           w_exec w (hookCommand w s) cwd None = None"
    and "hasFlag flags ''reset'' \<Longrightarrow> w_emptyDir w (join [w_cwd w, ''dist'']) = None"
    and "hasFlag flags ''optimized''"
    and "w_pathExists w (join [w_cwd w, ''tsconfig.json''])"
    and "(case bc_formats (pj_bundler pkg) of None \<Rightarrow> [esm, cjs] | Some l \<Rightarrow> l) = f # fs"
  shows "writesOf (dispatchedTasks (fst (run w cwd flags))) = [] \<and>
         written (fst (run w cwd flags)) = [] \<and>
         map o_format (filter (\<lambda>opts. o_dts opts \<noteq> None)
           (buildsOf (dispatchedTasks (fst (run w cwd flags))))) = [[f]]"
proof -
  have fs: "formats pkg = f # fs"
    using assms(6) by (simp add: formats_def)
  have ex: "w_pathExists w (tsConfigPath w)"
    using assms(5) by (simp add: tsConfigPath_def)
  have d: "dispatchedTasks (fst (run w cwd flags)) = runTasks w cwd flags pkg"
    by (simp add: dispatchedTasks_run[OF assms(1)] prelude_ok[OF assms(2,3)])
  have w: "writesOf (runTasks w cwd flags pkg) = []"
    using assms(4) by (simp add: runTasks_eq writesOf_tasks)
  have "set (written (fst (run w cwd flags))) \<subseteq> {}"
    using written_run_subset[OF assms(1), of flags] unfolding w by simp
  then have wr: "written (fst (run w cwd flags)) = []"
    by simp
  have b: "map o_format (filter (\<lambda>opts. o_dts opts \<noteq> None) (buildsOf (runTasks w cwd flags pkg))) =
           [[f]]"
    using assms(4) ex
    by (cases f) (auto simp: buildsOf_runTasks fs esmOptions_fields cjsOptions_fields)
  show ?thesis
    unfolding d using w wr b by simp
qed

definition cjsFirstPkg :: PackageJson where
  "cjsFirstPkg = examplePkg\<lparr>pj_bundler := (pj_bundler examplePkg)\<lparr>bc_formats := Some [cjs, esm]\<rparr>\<rparr>"

theorem optimized_run_attaches_declarations_to_first_format_witness:
  "written (fst (run (exampleWorldWith cjsFirstPkg) ''/pkg'' [''--optimized''])) = [] \<and>
   map o_format (buildsOf (dispatchedTasks
     (fst (run (exampleWorldWith cjsFirstPkg) ''/pkg'' [''--optimized''])))) = [[esm], [cjs]] \<and>
   map o_format (filter (\<lambda>opts. o_dts opts \<noteq> None) (buildsOf (dispatchedTasks
     (fst (run (exampleWorldWith cjsFirstPkg) ''/pkg'' [''--optimized'']))))) = [[cjs]]"
proof -
  have f: "(case bc_formats (pj_bundler cjsFirstPkg) of None \<Rightarrow> [esm, cjs] | Some l \<Rightarrow> l) =
           cjs # [esm]"
    by (simp add: cjsFirstPkg_def)
  have b: "map o_format (buildsOf (dispatchedTasks
     (fst (run (exampleWorldWith cjsFirstPkg) ''/pkg'' [''--optimized''])))) = [[esm], [cjs]]"
    by (simp add: exampleWorldWith_dispatched buildsOf_runTasks formats_def cjsFirstPkg_def
        esmOptions_fields cjsOptions_fields)
  have t: "written (fst (run (exampleWorldWith cjsFirstPkg) ''/pkg'' [''--optimized''])) = [] \<and>
     map o_format (filter (\<lambda>opts. o_dts opts \<noteq> None) (buildsOf (dispatchedTasks
       (fst (run (exampleWorldWith cjsFirstPkg) ''/pkg'' [''--optimized'']))))) = [[cjs]]"
    using optimized_run_attaches_declarations_to_first_format[
        of "exampleWorldWith cjsFirstPkg" "''/pkg''" cjsFirstPkg "[''--optimized'']" cjs "[esm]"]
    by (simp add: exampleWorldWith_def exampleWorld_def hasFlag_optimized f)
  from t b show ?thesis
    by simp
qed

text \<open>A manifest that declares no formats, and one that declares the empty list.\<close>

definition emptyFormatsPkg :: PackageJson where
  "emptyFormatsPkg = examplePkg\<lparr>pj_bundler := (pj_bundler examplePkg)\<lparr>bc_formats := Some []\<rparr>\<rparr>"

definition absentFormatsPkg :: PackageJson where
  "absentFormatsPkg = examplePkg\<lparr>pj_bundler := (pj_bundler examplePkg)\<lparr>bc_formats := None\<rparr>\<rparr>"

text \<open>
  C5, as stated, fails: with \<open>formats\<close> declared as the empty list the run is
  fulfilled and has dispatched no compilation task.
\<close>

theorem empty_formats_run_counterexample:
  "bc_formats (pj_bundler emptyFormatsPkg) = Some [] \<and>
   snd (run (exampleWorldWith emptyFormatsPkg) ''/pkg'' []) = Inr () \<and>
   buildsOf (dispatchedTasks (fst (run (exampleWorldWith emptyFormatsPkg) ''/pkg'' []))) = []"
  by (simp add: exampleWorldWith_fulfilled exampleWorldWith_dispatched buildsOf_runTasks)
     (simp add: emptyFormatsPkg_def formats_def)

lemma same_bundler_but_formats:
  assumes "pkg' = pkg\<lparr>pj_bundler := (pj_bundler pkg)\<lparr>bc_formats := fs\<rparr>\<rparr>"
    and "w' = w\<lparr>w_readJson := r\<rparr>"
    and "formats pkg' = formats pkg"
  shows "prelude w' cwd flags pkg' = prelude w cwd flags pkg"
    and "epilogue w' cwd pkg' = epilogue w cwd pkg"
    and "runTasks w' cwd flags pkg' = runTasks w cwd flags pkg"
proof -
  have h: "hook w' cwd s dbg = hook w cwd s dbg" for s dbg
    by (simp add: hook_def exec_def hookCommand_def assms(2) split: option.splits)
  have t: "tsConfigPath w' = tsConfigPath w"
    by (simp add: tsConfigPath_def assms(2))
  show "prelude w' cwd flags pkg' = prelude w cwd flags pkg"
    unfolding prelude_def h t by (simp add: assms(1)) (simp add: emptyDir_def assms(2))
  show "epilogue w' cwd pkg' = epilogue w cwd pkg"
    unfolding epilogue_def h by (simp add: assms(1)) (simp add: assms(2))
  have e: "entries pkg' = entries pkg"
    by (simp add: entries_def assms(1))
  have x: "externals pkg' = externals pkg"
    by (simp add: externals_def extraExternals_def assms(1))
  have n: "noExternal pkg' = noExternal pkg"
    by (simp add: noExternal_def extraNoExternal_def assms(1))
  have a: "allEntries cwd pkg' = allEntries cwd pkg"
    by (simp add: allEntries_def e)
  have p: "bc_platform (pj_bundler pkg') = bc_platform (pj_bundler pkg)"
    by (simp add: assms(1))
  have o: "outDir w' = outDir w"
    by (simp add: outDir_def assms(2))
  have c: "w_cwd w' = w_cwd w" "w_requireResolve w' = w_requireResolve w"
      "w_pathExists w' = w_pathExists w"
    by (simp_all add: assms(2))
  have esm: "esmOptions w' cwd pkg' wa opt b d = esmOptions w cwd pkg wa opt b d" for wa opt b d
    unfolding esmOptions_def nonPresetEntries_def a x n p o c ..
  have cjs: "cjsOptions w' cwd pkg' wa opt b d = cjsOptions w cwd pkg wa opt b d" for wa opt b d
    unfolding cjsOptions_def a x n o ..
  have g: "generateDTSMapperFile w' = generateDTSMapperFile w"
    unfolding generateDTSMapperFile_def c ..
  show "runTasks w' cwd flags pkg' = runTasks w cwd flags pkg"
    unfolding runTasks_eq tasks_def assms(3) e esm cjs g t c ..
qed

text \<open>
  C5, amended: when the bundler section has no \<open>formats\<close> field, the run is the run
  of the same manifest with \<open>formats\<close> declared as \<open>['esm', 'cjs']\<close>, and once the
  manifest is read and neither the pre-hook nor the reset fails, the compilation tasks
  dispatched are an ESM and a CommonJS one.  A \<open>formats\<close> field declared as the
  empty list is not defaulted: no compilation task is dispatched.
\<close>

theorem absent_formats_run_as_both:
  assumes "w_readJson w (join [cwd, ''package.json'']) = Inr pkg"
    and "\<And>s. bc_pre (pj_bundler pkg) = Some s \<Longrightarrow> s \<noteq> [] \<Longrightarrow>
           w_exec w (hookCommand w s) cwd None = None"
    and "hasFlag flags ''reset'' \<Longrightarrow> w_emptyDir w (join [w_cwd w, ''dist'']) = None"
  shows "(bc_formats (pj_bundler pkg) = None \<longrightarrow>
            run w cwd flags =
              run (w\<lparr>w_readJson := (\<lambda>f. Inr (pkg\<lparr>pj_bundler := (pj_bundler pkg)
                      \<lparr>bc_formats := Some [esm, cjs]\<rparr>\<rparr>))\<rparr>) cwd flags \<and>
            map o_format (buildsOf (dispatchedTasks (fst (run w cwd flags)))) = [[esm], [cjs]]) \<and>
         (bc_formats (pj_bundler pkg) = Some [] \<longrightarrow>
            buildsOf (dispatchedTasks (fst (run w cwd flags))) = [])"
proof (intro conjI impI)
  have d: "dispatchedTasks (fst (run w cwd flags)) = runTasks w cwd flags pkg"
    by (simp add: dispatchedTasks_run[OF assms(1)] prelude_ok[OF assms(2,3)])
  {
    assume "bc_formats (pj_bundler pkg) = Some []"
    then show "buildsOf (dispatchedTasks (fst (run w cwd flags))) = []"
      unfolding d by (simp add: buildsOf_runTasks formats_def)
  }
  assume none: "bc_formats (pj_bundler pkg) = None"
  then have f: "formats pkg = [esm, cjs]"
    by (simp add: formats_def)
  show "map o_format (buildsOf (dispatchedTasks (fst (run w cwd flags)))) = [[esm], [cjs]]"
    unfolding d by (simp add: buildsOf_runTasks f esmOptions_fields cjsOptions_fields)
  define pkg' where "pkg' = pkg\<lparr>pj_bundler := (pj_bundler pkg)\<lparr>bc_formats := Some [esm, cjs]\<rparr>\<rparr>"
  define w' where "w' = w\<lparr>w_readJson := (\<lambda>f. Inr pkg')\<rparr>"
  have f': "formats pkg' = formats pkg"
    unfolding f by (simp add: formats_def pkg'_def)
  have m': "w_readJson w' (join [cwd, ''package.json'']) = Inr pkg'"
    by (simp add: w'_def)
  note s = same_bundler_but_formats[OF pkg'_def w'_def f']
  have "awaitAll w' p = awaitAll w p" for p
    by (rule awaitAll_cong) (simp_all add: w'_def)
  then have "run w' cwd flags = run w cwd flags"
    unfolding run_manifest[OF assms(1)] run_manifest[OF m'] s by simp
  then show "run w cwd flags =
              run (w\<lparr>w_readJson := (\<lambda>f. Inr (pkg\<lparr>pj_bundler := (pj_bundler pkg)
                      \<lparr>bc_formats := Some [esm, cjs]\<rparr>\<rparr>))\<rparr>) cwd flags"
    unfolding w'_def pkg'_def by simp
qed

theorem absent_formats_run_as_both_witness:
  "map o_format (buildsOf (dispatchedTasks
     (fst (run (exampleWorldWith absentFormatsPkg) ''/pkg'' [])))) = [[esm], [cjs]] \<and>
   buildsOf (dispatchedTasks (fst (run (exampleWorldWith emptyFormatsPkg) ''/pkg'' []))) = []"
proof -
  have a: "bc_formats (pj_bundler absentFormatsPkg) = None"
    by (simp add: absentFormatsPkg_def)
  have e: "bc_formats (pj_bundler emptyFormatsPkg) = Some []"
    by (simp add: emptyFormatsPkg_def)
  note t = absent_formats_run_as_both[OF exampleWorldWith_manifest exampleWorldWith_exec
      exampleWorldWith_emptyDir]
  from t[THEN conjunct1, THEN mp, OF a, THEN conjunct2] t[THEN conjunct2, THEN mp, OF e]
  show ?thesis
    by (rule conjI)
qed

section \<open>Fatal errors\<close>

lemma hook_rejected:
  "snd (hook w cwd s dbg) = Inl e \<Longrightarrow> \<exists>c. w_exec w c cwd dbg = Some e"
  by (auto simp: hook_def skip_def exec_def split: option.splits if_splits)

lemma run_rejected:
  assumes "snd (run w cwd flags) = Inl e"
  shows "(\<exists>f. w_readJson w f = Inl e) \<or> (\<exists>c d dbg. w_exec w c d dbg = Some e) \<or>
         (\<exists>d. w_emptyDir w d = Some e) \<or> (\<exists>op. w_perform w op = Some e)"
proof (cases "w_readJson w (join [cwd, ''package.json''])")
  case (Inl e')
  with assms run_no_manifest[OF Inl, of flags] show ?thesis by auto
next
  case (Inr pkg)
  from assms consider
      (pre) "snd (prelude w cwd flags pkg) = Inl e"
    | (tasks) "snd (awaitAll w (enumerate 0 (runTasks w cwd flags pkg))) = Inl e"
    | (post) "snd (epilogue w cwd pkg) = Inl e"
    by (auto simp: run_result[OF Inr] split: sum.splits)
  then show ?thesis
  proof cases
    case pre
    then have "snd (hook w cwd (bc_pre (pj_bundler pkg)) None) = Inl e \<or>
               (\<exists>d. w_emptyDir w d = Some e)"
      by (auto simp: prelude_def snd_andThen emptyDir_def skip_def
          split: sum.splits if_splits option.splits)
    then show ?thesis
      using hook_rejected by blast
  next
    case tasks
    from awaitAll_rejected[OF this] show ?thesis by blast
  next
    case post
    then have "snd (hook w cwd (bc_post (pj_bundler pkg)) (Some True)) = Inl e"
      by (auto simp: epilogue_def snd_andThen split: sum.splits)
    then show ?thesis
      using hook_rejected by blast
  qed
qed

lemma post_hook_started:
  assumes m: "w_readJson w (join [cwd, ''package.json'']) = Inr pkg"
    and post: "bc_post (pj_bundler pkg) = Some s"
    and st: "ExecStart (hookCommand w s) cwd (Some True) \<in> set (fst (run w cwd flags))"
  shows "snd (run w cwd flags) = snd (epilogue w cwd pkg) \<and> s \<noteq> []"
proof -
  let ?post = "ExecStart (hookCommand w s) cwd (Some True)"
  have a: "?post \<notin> set (fst (prelude w cwd flags pkg))"
    using prelude_events[of ?post] by (auto simp: isSetupEvent_def)
  have b: "?post \<notin> set (fst (awaitAll w p))" for p
    using awaitAll_events[of ?post] by (auto simp: isTaskEvent_def)
  have c: "?post \<notin> (\<lambda>(i, t). Dispatched i t) ` X" for X
    by auto
  from st have ok: "snd (prelude w cwd flags pkg) = Inr ()"
      "snd (awaitAll w (enumerate 0 (runTasks w cwd flags pkg))) = Inr ()"
      and ep: "?post \<in> set (fst (epilogue w cwd pkg))"
    by (auto simp: run_trace[OF m] a b c split: sum.splits)
  from ep have "s \<noteq> []"
    by (auto simp: epilogue_def fst_andThen hook_def skip_def post split: sum.splits if_splits)
  then show ?thesis
    by (simp add: run_result[OF m] ok)
qed

text \<open>
  C7: a run ends the process with status 0 when it is fulfilled and with status 1 when
  it is rejected, and then the stack of the error it is rejected with, which begins
  with the error's description, is the last thing printed, on the error stream.  The
  run is rejected with the error of the failure: of the manifest that cannot be read, of
  the pre-hook or the post-hook that fails, of the first operation of a task that fails.
  The values that the calls of the libraries and of \<open>exec\<close> reject with are instances
  of \<open>Error\<close>.
\<close>

theorem fatal_error_exits_with_1:
  assumes "\<And>f. w_readJson w f \<noteq> Inl NonError"
    and "\<And>c d dbg. w_exec w c d dbg \<noteq> Some NonError"
    and "\<And>d. w_emptyDir w d \<noteq> Some NonError"
    and "\<And>op. w_perform w op \<noteq> Some NonError"
  shows "(snd (run w (w_cwd w) (drop 2 (w_argv w))) = Inr () \<longrightarrow>
            main w = (fst (run w (w_cwd w) (drop 2 (w_argv w))), 0)) \<and>
         (\<forall>err. snd (run w (w_cwd w) (drop 2 (w_argv w))) = Inl err \<longrightarrow>
            (\<exists>stack. err = Error stack \<and>
               main w = (fst (run w (w_cwd w) (drop 2 (w_argv w))) @ [ConsoleError stack], 1))) \<and>
         (w_readJson w (join [w_cwd w, ''package.json'']) = Inl e \<longrightarrow>
            snd (run w (w_cwd w) (drop 2 (w_argv w))) = Inl e) \<and>
         (w_readJson w (join [w_cwd w, ''package.json'']) = Inr pkg \<and>
          bc_pre (pj_bundler pkg) = Some s \<and> s \<noteq> [] \<and>
          w_exec w (hookCommand w s) (w_cwd w) None = Some e \<longrightarrow>
            snd (run w (w_cwd w) (drop 2 (w_argv w))) = Inl e) \<and>
         (Dispatched i t \<in> set (fst (run w (w_cwd w) (drop 2 (w_argv w)))) \<and> op \<in> set t \<and>
          w_perform w op = Some e \<longrightarrow>
            (\<exists>j op' e'. Failed j op' \<in> set (fst (run w (w_cwd w) (drop 2 (w_argv w)))) \<and>
               w_perform w op' = Some e' \<and>
               snd (run w (w_cwd w) (drop 2 (w_argv w))) = Inl e')) \<and>
         (w_readJson w (join [w_cwd w, ''package.json'']) = Inr pkg \<and>
          bc_post (pj_bundler pkg) = Some s \<and>
          ExecStart (hookCommand w s) (w_cwd w) (Some True)
            \<in> set (fst (run w (w_cwd w) (drop 2 (w_argv w)))) \<and>
          w_exec w (hookCommand w s) (w_cwd w) (Some True) = Some e \<longrightarrow>
            snd (run w (w_cwd w) (drop 2 (w_argv w))) = Inl e)"
proof (intro conjI impI allI)
  let ?cwd = "w_cwd w" and ?flags = "drop 2 (w_argv w)"
  show "main w = (fst (run w ?cwd ?flags), 0)" if "snd (run w ?cwd ?flags) = Inr ()"
    using that by (simp add: main_eq)
  show "\<exists>stack. err = Error stack \<and> main w = (fst (run w ?cwd ?flags) @ [ConsoleError stack], 1)"
    if r: "snd (run w ?cwd ?flags) = Inl err" for err
  proof -
    from run_rejected[OF r] assms have "err \<noteq> NonError"
      by metis
    then obtain stack where "err = Error stack"
      by (cases err) auto
    with r show ?thesis
      by (simp add: main_eq)
  qed
  show "snd (run w ?cwd ?flags) = Inl e"
    if "w_readJson w (join [?cwd, ''package.json'']) = Inl e"
    using that by (simp add: run_no_manifest)
  show "snd (run w ?cwd ?flags) = Inl e"
    if "w_readJson w (join [?cwd, ''package.json'']) = Inr pkg \<and>
        bc_pre (pj_bundler pkg) = Some s \<and> s \<noteq> [] \<and>
        w_exec w (hookCommand w s) ?cwd None = Some e"
    using that by (simp add: run_result pre_hook_failure)
  show "\<exists>j op' e'. Failed j op' \<in> set (fst (run w ?cwd ?flags)) \<and> w_perform w op' = Some e' \<and>
          snd (run w ?cwd ?flags) = Inl e'"
    if a: "Dispatched i t \<in> set (fst (run w ?cwd ?flags)) \<and> op \<in> set t \<and>
           w_perform w op = Some e"
  proof (cases "w_readJson w (join [?cwd, ''package.json''])")
    case (Inl e')
    with a run_no_manifest[OF Inl, of ?flags] show ?thesis by simp
  next
    case (Inr pkg)
    let ?ts = "runTasks w ?cwd ?flags pkg"
    from a have p: "snd (prelude w ?cwd ?flags pkg) = Inr ()"
      and "i < length ?ts" "?ts ! i = t"
      by (simp_all add: dispatched_run[OF Inr])
    then have "(i, t) \<in> set (enumerate 0 ?ts)"
      by (simp add: in_set_enumerate_eq)
    from awaitAll_rejects[OF this] a
    obtain e' where e': "snd (awaitAll w (enumerate 0 ?ts)) = Inl e'"
      by blast
    from awaitAll_rejected[OF this] obtain j op' where
      "Failed j op' \<in> set (fst (awaitAll w (enumerate 0 ?ts)))" "w_perform w op' = Some e'"
      by blast
    moreover have "snd (run w ?cwd ?flags) = Inl e'"
      by (simp add: run_result[OF Inr] p e')
    ultimately show ?thesis
      by (auto simp: run_trace[OF Inr] p)
  qed
  show "snd (run w ?cwd ?flags) = Inl e"
    if a: "w_readJson w (join [?cwd, ''package.json'']) = Inr pkg \<and>
        bc_post (pj_bundler pkg) = Some s \<and>
        ExecStart (hookCommand w s) ?cwd (Some True) \<in> set (fst (run w ?cwd ?flags)) \<and>
        w_exec w (hookCommand w s) ?cwd (Some True) = Some e"
  proof -
    from a post_hook_started[of w ?cwd pkg s ?flags]
    have "snd (run w ?cwd ?flags) = snd (epilogue w ?cwd pkg)" "s \<noteq> []"
      by simp_all
    with a show ?thesis
      by (simp add: post_hook_failure)
  qed
qed

lemma example_dispatched_0:
  "Dispatched 0 (runTasks (exampleWorld\<lparr>w_perform := p\<rparr>) ''/pkg'' [] examplePkg ! 0)
     \<in> set (fst (run (exampleWorld\<lparr>w_perform := p\<rparr>) ''/pkg'' []))"
proof -
  have m: "w_readJson (exampleWorld\<lparr>w_perform := p\<rparr>) (join [''/pkg'', ''package.json'']) =
           Inr examplePkg"
    by (simp add: exampleWorld_def)
  have "snd (prelude (exampleWorld\<lparr>w_perform := p\<rparr>) ''/pkg'' [] examplePkg) = Inr ()"
    by (rule prelude_ok) (simp_all add: exampleWorld_def)
  moreover have "0 < length (runTasks (exampleWorld\<lparr>w_perform := p\<rparr>) ''/pkg'' [] examplePkg)"
    by (simp add: runTasks_eq tasks_def example_formats)
  ultimately show ?thesis
    by (simp add: dispatched_run[OF m])
qed

theorem fatal_error_exits_with_1_witness:
  "main (exampleWorld\<lparr>w_readJson := (\<lambda>f. Inl (Error ''ENOENT: no such file or directory''))\<rparr>) =
     ([ReadJson ''/pkg/package.json'', ConsoleError ''ENOENT: no such file or directory''], 1) \<and>
   snd (main (exampleWorld\<lparr>w_perform := (\<lambda>op. Some (Error ''Build failed''))\<rparr>)) = 1 \<and>
   last (fst (main (exampleWorld\<lparr>w_perform := (\<lambda>op. Some (Error ''Build failed''))\<rparr>))) =
     ConsoleError ''Build failed'' \<and>
   main exampleWorld = (fst (run exampleWorld ''/pkg'' []), 0)"
proof -
  let ?w = "exampleWorld\<lparr>w_readJson := (\<lambda>f. Inl (Error ''ENOENT: no such file or directory''))\<rparr>"
  let ?b = "exampleWorld\<lparr>w_perform := (\<lambda>op. Some (Error ''Build failed''))\<rparr>"
  let ?op = "Build (esmOptions ?b ''/pkg'' examplePkg False False None
        \<lparr>dc_tsconfig = tsConfigPath ?b,
           dc_dts = \<lparr>d_entry = entries examplePkg, d_resolve = True\<rparr>\<rparr>)"
  have c: "w_cwd ?w = ''/pkg''" "w_cwd exampleWorld = ''/pkg''" "w_cwd ?b = ''/pkg''"
      "drop 2 (w_argv ?w) = []" "drop 2 (w_argv exampleWorld) = []" "drop 2 (w_argv ?b) = []"
    by (simp_all add: exampleWorld_def)
  have ew: "w_readJson ?w f \<noteq> Inl NonError" "w_exec ?w cm d dbg \<noteq> Some NonError"
      "w_emptyDir ?w d \<noteq> Some NonError" "w_perform ?w op \<noteq> Some NonError" for f cm d dbg op
    by (simp_all add: exampleWorld_def)
  have eb: "w_readJson ?b f \<noteq> Inl NonError" "w_exec ?b cm d dbg \<noteq> Some NonError"
      "w_emptyDir ?b d \<noteq> Some NonError" "w_perform ?b op \<noteq> Some NonError" for f cm d dbg op
    by (simp_all add: exampleWorld_def)
  have ee: "w_readJson exampleWorld f \<noteq> Inl NonError" "w_exec exampleWorld cm d dbg \<noteq> Some NonError"
      "w_emptyDir exampleWorld d \<noteq> Some NonError" "w_perform exampleWorld op \<noteq> Some NonError"
    for f cm d dbg op
    by (simp_all add: exampleWorld_def)
  \<comment> \<open>the manifest cannot be read\<close>
  have m: "w_readJson ?w (join [''/pkg'', ''package.json'']) =
             Inl (Error ''ENOENT: no such file or directory'')"
    by simp
  note t = fatal_error_exits_with_1[of ?w, OF ew, unfolded c]
  have r: "run ?w ''/pkg'' [] =
      ([ReadJson ''/pkg/package.json''], Inl (Error ''ENOENT: no such file or directory''))"
    using run_no_manifest[OF m] by (simp add: example_manifest_path)
  from t[THEN conjunct2, THEN conjunct1] r have 1: "main ?w =
     ([ReadJson ''/pkg/package.json'', ConsoleError ''ENOENT: no such file or directory''], 1)"
    by simp
  \<comment> \<open>the builds fail\<close>
  note u = fatal_error_exits_with_1[of ?b "Error ''Build failed''" _ _ 0
      "runTasks ?b ''/pkg'' [] examplePkg ! 0" ?op, OF eb, unfolded c]
  have t0: "runTasks ?b ''/pkg'' [] examplePkg ! 0 = [?op]"
    by (simp add: runTasks_eq tasks_def example_formats hasFlag_Nil)
  have "Dispatched 0 (runTasks ?b ''/pkg'' [] examplePkg ! 0) \<in> set (fst (run ?b ''/pkg'' [])) \<and>
        ?op \<in> set (runTasks ?b ''/pkg'' [] examplePkg ! 0) \<and>
        w_perform ?b ?op = Some (Error ''Build failed'')"
    by (intro conjI) (rule example_dispatched_0, simp add: t0, simp)
  from u[THEN conjunct2, THEN conjunct2, THEN conjunct2, THEN conjunct2, THEN conjunct1,
      THEN mp, OF this]
  have "snd (run ?b ''/pkg'' []) = Inl (Error ''Build failed'')"
    by auto
  with u[THEN conjunct2, THEN conjunct1]
  have "main ?b = (fst (run ?b ''/pkg'' []) @ [ConsoleError ''Build failed''], 1)"
    by simp
  then have 2: "snd (main ?b) = 1" "last (fst (main ?b)) = ConsoleError ''Build failed''"
    by simp_all
  \<comment> \<open>nothing fails\<close>
  have "snd (run exampleWorld ''/pkg'' []) = Inr ()"
    using example_run_fulfilled[of None "[]"] by (simp add: exampleWorld_CI)
  with fatal_error_exits_with_1[of exampleWorld, OF ee, unfolded c, THEN conjunct1]
  have 3: "main exampleWorld = (fst (run exampleWorld ''/pkg'' []), 0)"
    by simp
  from 1 2 3 show ?thesis
    by simp
qed


section \<open>Paths made of plain segments\<close>

text \<open>
  A plain segment is a file or directory name: not empty, not \<open>.\<close> or \<open>..\<close>, without
  a separator.  \<open>absPath segs\<close> is the normalised absolute path with these segments.
\<close>

definition plain :: "string \<Rightarrow> bool" where
  "plain s = (s \<noteq> [] \<and> s \<noteq> ''.'' \<and> s \<noteq> ''..'' \<and> CHR ''/'' \<notin> set s)"

definition absPath :: "string list \<Rightarrow> string" where
  "absPath segs = ''/'' @ join_with ''/'' segs"

lemma split_chr_no_sep: "c \<notin> set s \<Longrightarrow> split_chr c s = [s]"
  by (induction s) auto

lemma split_chr_not_Nil: "split_chr c s \<noteq> []"
  by (induction s) (auto split: list.splits)

lemma split_chr_append: "split_chr c (a @ c # b) = split_chr c a @ split_chr c b"
proof (induction a)
  case Nil
  show ?case by simp
next
  case (Cons x a)
  show ?case
  proof (cases "x = c")
    case True
    then show ?thesis using Cons by simp
  next
    case False
    obtain s ss where "split_chr c a = s # ss"
      using split_chr_not_Nil[of c a] by (cases "split_chr c a") auto
    with False Cons show ?thesis by simp
  qed
qed

lemma join_with_Cons:
  "join_with sep (x # xs) = x @ (if xs = [] then [] else sep @ join_with sep xs)"
  by (cases xs) simp_all

lemma join_with_append:
  "xs \<noteq> [] \<Longrightarrow> ys \<noteq> [] \<Longrightarrow>
   join_with sep (xs @ ys) = join_with sep xs @ sep @ join_with sep ys"
  by (induction xs) (auto simp: join_with_Cons)

lemma join_split: "join_with [c] (split_chr c s) = s"
proof (induction s)
  case Nil
  show ?case by simp
next
  case (Cons x s)
  obtain t ts where ts: "split_chr c s = t # ts"
    using split_chr_not_Nil[of c s] by (cases "split_chr c s") auto
  with Cons show ?case
    by (auto simp: join_with_Cons split: if_splits)
qed

lemma split_join:
  "xs \<noteq> [] \<Longrightarrow> \<forall>s \<in> set xs. c \<notin> set s \<Longrightarrow> split_chr c (join_with [c] xs) = xs"
proof (induction xs)
  case Nil
  then show ?case by simp
next
  case (Cons x xs)
  show ?case
  proof (cases "xs = []")
    case True
    with Cons.prems show ?thesis by (simp add: split_chr_no_sep)
  next
    case False
    with Cons have "split_chr c (join_with [c] xs) = xs" by simp
    with False Cons.prems show ?thesis
      by (simp add: join_with_Cons split_chr_append split_chr_no_sep)
  qed
qed

lemma normalizeSegs_plain:
  "\<forall>s \<in> set ps. plain s \<Longrightarrow>
   normalizeSegs a res (ps @ rest) = normalizeSegs a (res @ ps) rest"
  by (induction ps arbitrary: res) (auto simp: plain_def)

lemma normalizeSegs_up:
  "n \<le> length res \<Longrightarrow> \<forall>s \<in> set res. plain s \<Longrightarrow>
   normalizeSegs a res (replicate n ''..'' @ rest) = normalizeSegs a (take (length res - n) res) rest"
proof (induction n arbitrary: res)
  case 0
  then show ?case by simp
next
  case (Suc n)
  then have ne: "res \<noteq> []" by auto
  then have l: "last res \<in> set res" by simp
  with Suc.prems have "last res \<noteq> ''..''" by (auto simp: plain_def)
  moreover have "\<forall>s \<in> set (butlast res). plain s"
    using Suc.prems by (auto dest: in_set_butlastD)
  moreover have "n \<le> length (butlast res)" using Suc.prems by simp
  ultimately show ?case
    using Suc.IH[of "butlast res"] ne
    by (simp add: butlast_conv_take take_take min_def)
qed


lemma join_with_last:
  "xs \<noteq> [] \<Longrightarrow> \<exists>p. join_with sep xs = p @ last xs"
  by (induction xs) (auto simp: join_with_Cons)

lemma join_with_nonempty: "xs \<noteq> [] \<Longrightarrow> last xs \<noteq> [] \<Longrightarrow> join_with sep xs \<noteq> []"
  using join_with_last[of xs sep] by auto

lemma last_join_with:
  "xs \<noteq> [] \<Longrightarrow> last xs \<noteq> [] \<Longrightarrow> last (join_with sep xs) = last (last xs)"
  using join_with_last[of xs sep] by auto

lemma split_absPath:
  assumes "\<forall>s \<in> set cs. plain s"
  shows "normalizeSegs a res (split_chr CHR ''/'' (absPath cs) @ rest) =
         normalizeSegs a (res @ cs) rest"
proof (cases "cs = []")
  case True
  then show ?thesis by (simp add: absPath_def)
next
  case False
  have "split_chr CHR ''/'' (absPath cs) = [] # cs"
    using split_chr_append[of "CHR ''/''" "[]" "join_with ''/'' cs"]
      split_join[OF False, of "CHR ''/''"] assms
    by (simp add: absPath_def plain_def)
  then show ?thesis
    using normalizeSegs_plain[OF assms] by simp
qed

lemma join_abs:
  assumes cs: "\<forall>s \<in> set cs. plain s"
    and xs: "xs \<noteq> []" "\<forall>s \<in> set xs. CHR ''/'' \<notin> set s" "last xs \<noteq> []"
  shows "join [absPath cs, join_with ''/'' xs] = absPath (normalizeSegs False cs xs)"
proof -
  let ?b = "join_with ''/'' xs"
  let ?p = "absPath cs @ ''/'' @ ?b"
  have b: "?b \<noteq> []"
    using xs by (simp add: join_with_nonempty)
  have "last (last xs) \<in> set (last xs)"
    using xs by simp
  moreover have "last xs \<in> set xs"
    using xs by simp
  ultimately have "last (last xs) \<noteq> CHR ''/''"
    using xs(2) by metis
  then have lastp: "last ?p \<noteq> CHR ''/''"
    using b xs by (simp add: last_join_with)
  have "split_chr CHR ''/'' ?p = split_chr CHR ''/'' (absPath cs) @ xs"
    using split_chr_append[of "CHR ''/''" "absPath cs" ?b] split_join[OF xs(1,2)] by simp
  then have "normalizeString ?p False = join_with ''/'' (normalizeSegs False cs xs)"
    using split_absPath[OF cs, of False "[]" xs] by (simp add: normalizeString_def)
  then have "normalize ?p = absPath (normalizeSegs False cs xs)"
    using lastp by (simp add: normalize_def isAbsolute_def absPath_def Let_def)
  then show ?thesis
    using b by (simp add: join_def absPath_def)
qed

lemma dirname_abs:
  assumes "xs \<noteq> []" "\<forall>s \<in> set xs. plain s" "f \<noteq> []" "CHR ''/'' \<notin> set f"
  shows "dirname (absPath (xs @ [f])) = absPath xs"
proof -
  let ?J = "join_with ''/'' xs"
  have J: "?J \<noteq> []"
    using assms(1,2) by (intro join_with_nonempty) (auto simp: plain_def)
  have p: "absPath (xs @ [f]) = ''/'' @ ?J @ ''/'' @ f"
    using assms(1) by (simp add: absPath_def join_with_append)
  have "hd (rev f) \<noteq> CHR ''/''"
    using assms(3,4) by (metis hd_rev last_in_set)
  then have "dropWhile (\<lambda>c. c = CHR ''/'') (rev f @ ''/'' @ rev ?J) = rev f @ ''/'' @ rev ?J"
    using assms(3) by (cases "rev f") auto
  moreover have "dropWhile (\<lambda>c. c \<noteq> CHR ''/'') (rev f @ ''/'' @ rev ?J) = ''/'' @ rev ?J"
    using assms(4) by (subst dropWhile_append2) auto
  ultimately have "dirname (''/'' @ ?J @ ''/'' @ f) = take (Suc (length ?J)) (''/'' @ ?J @ ''/'' @ f)"
    using J by (simp add: dirname_def Let_def)
  then show ?thesis
    by (simp add: p) (simp add: absPath_def)
qed

lemma resolve_abs:
  assumes "\<forall>s \<in> set xs. plain s"
  shows "resolve cwd (absPath xs) = absPath xs"
proof -
  have "isAbsolute (absPath xs)"
    by (simp add: isAbsolute_def absPath_def)
  moreover have "normalizeString (absPath xs) False = join_with ''/'' xs"
    using split_absPath[OF assms, of False "[]" "[]"] by (simp add: normalizeString_def)
  ultimately show ?thesis
    by (simp add: resolve_def Let_def absPath_def)
qed

lemma segments_absPath:
  assumes "\<forall>s \<in> set xs. plain s"
  shows "filter (\<lambda>s. s \<noteq> []) (split_chr CHR ''/'' (absPath xs)) = xs"
proof (cases "xs = []")
  case True
  then show ?thesis by (simp add: absPath_def)
next
  case False
  have "split_chr CHR ''/'' (absPath xs) = [] # xs"
    using split_chr_append[of "CHR ''/''" "[]" "join_with ''/'' xs"]
      split_join[OF False, of "CHR ''/''"] assms
    by (simp add: absPath_def plain_def)
  moreover have "filter (\<lambda>s. s \<noteq> []) xs = xs"
    using assms by (auto simp: plain_def filter_id_conv)
  ultimately show ?thesis by simp
qed

lemma dropCommon_prefix:
  "a \<noteq> b \<Longrightarrow> dropCommon (cs @ a # xs) (cs @ b # ys) = (a # xs, b # ys)"
  by (induction cs) auto

lemma relative_abs:
  assumes "\<forall>s \<in> set cs. plain s" "\<forall>s \<in> set xs. plain s" "\<forall>s \<in> set ys. plain s"
    and "plain a" "plain b" "a \<noteq> b"
  shows "relative cwd (absPath (cs @ a # xs)) (absPath (cs @ b # ys)) =
           join_with ''/'' (replicate (Suc (length xs)) ''..'' @ b # ys)"
proof -
  have pa: "\<forall>s \<in> set (cs @ a # xs). plain s" and pb: "\<forall>s \<in> set (cs @ b # ys). plain s"
    using assms by auto
  have ne: "absPath (cs @ a # xs) \<noteq> absPath (cs @ b # ys)"
  proof
    assume "absPath (cs @ a # xs) = absPath (cs @ b # ys)"
    then have "filter (\<lambda>s. s \<noteq> []) (split_chr CHR ''/'' (absPath (cs @ a # xs))) =
               filter (\<lambda>s. s \<noteq> []) (split_chr CHR ''/'' (absPath (cs @ b # ys)))"
      by simp
    then have "cs @ a # xs = cs @ b # ys"
      by (simp only: segments_absPath[OF pa] segments_absPath[OF pb])
    with assms(6) show False by simp
  qed
  show ?thesis
    using ne
    by (simp add: relative_def resolve_abs[OF pa] resolve_abs[OF pb] segments_absPath[OF pa]
        segments_absPath[OF pb] dropCommon_prefix[OF assms(6)] Let_def)
qed


section \<open>The declaration mapping files\<close>

lemma parse_rel_eq:
  assumes d: "d \<noteq> []" "hd d \<noteq> CHR ''/''" and f: "f \<noteq> []" "CHR ''/'' \<notin> set f"
  shows "parse (d @ ''/'' @ f) =
     (let k = length f - length (takeWhile (\<lambda>c. c \<noteq> CHR ''.'') (rev f)) - 1
      in if CHR ''.'' \<notin> set f \<or> k = 0 \<or> (hd f = CHR ''.'' \<and> k = length f - 1 \<and> k = 1)
         then \<lparr>p_root = [], p_dir = d, p_base = f, p_ext = [], p_name = f\<rparr>
         else \<lparr>p_root = [], p_dir = d, p_base = f, p_ext = drop k f, p_name = take k f\<rparr>)"
proof -
  let ?p = "d @ ''/'' @ f"
  have ne: "?p \<noteq> []" by simp
  have hd: "(hd ?p = CHR ''/'') = False"
    using d by simp
  have "hd (rev f) \<noteq> CHR ''/''"
    using f by (metis hd_rev last_in_set)
  then have rb: "dropWhile (\<lambda>c. c = CHR ''/'') (rev (drop 0 ?p)) = rev f @ ''/'' @ rev d"
    using f(1) by (cases "rev f") auto
  have tw: "takeWhile (\<lambda>c. c \<noteq> CHR ''/'') (rev f @ ''/'' @ rev d) = rev f"
    using f(2) by (subst takeWhile_append2) auto
  have dw: "dropWhile (\<lambda>c. c \<noteq> CHR ''/'') (rev f @ ''/'' @ rev d) = ''/'' @ rev d"
    using f(2) by (subst dropWhile_append2) auto
  have tk: "take (length d) ?p = d" by simp
  show ?thesis
    unfolding parse_def Let_def
    apply (simp only: ne hd if_False rb tw dw rev_rev_ident)
    apply (simp only: tk list.size length_append length_rev)
    apply (simp add: f(1) del: takeWhile_eq_all_conv)
    apply (cases "CHR ''.'' \<in> set f"; cases "hd f = CHR ''.''"; simp del: takeWhile_eq_all_conv; arith)
    done
qed


lemma parse_rel:
  assumes d: "d \<noteq> []" "hd d \<noteq> CHR ''/''" and f: "f \<noteq> []" "CHR ''/'' \<notin> set f"
  shows "p_dir (parse (d @ ''/'' @ f)) = d"
    and "p_name (parse (d @ ''/'' @ f)) @ p_ext (parse (d @ ''/'' @ f)) = f"
    and "p_name (parse (d @ ''/'' @ f)) \<noteq> []"
    and "CHR ''/'' \<notin> set (p_name (parse (d @ ''/'' @ f)))"
  unfolding parse_rel_eq[OF assms] Let_def
  using f by (auto dest: in_set_takeD)

lemma replace_first_prefix: "pat \<noteq> [] \<Longrightarrow> replace_first (pat @ s) pat rep = rep @ s"
  by (cases pat) (simp_all add: startsWith_def)

lemma absPath_snoc: "absPath (xs @ [a]) @ b = absPath (xs @ [a @ b])"
  by (cases "xs = []") (simp_all add: absPath_def join_with_append)

lemma plain_dts:
  assumes "n \<noteq> []" "CHR ''/'' \<notin> set n"
  shows "plain (n @ ''.d.ts'')"
  using assms by (cases n) (auto simp: plain_def append_eq_Cons_conv)


lemma src_entry_parts:
  assumes ds: "\<forall>s \<in> set ds. plain s" and fl: "plain file"
    and e: "e = ''./src/'' @ join_with ''/'' (ds @ [file])"
  shows "e = join_with ''/'' (''.'' # ''src'' # ds) @ ''/'' @ file"
    and "e = join_with ''/'' (''.'' # ''src'' # ds @ [file])"
    and "join_with ''/'' (''.'' # ''src'' # ds) = ''./src'' @ (if ds = [] then [] else ''/'' @ join_with ''/'' ds)"
    and "join_with ''/'' (''dist'' # ds) = ''dist'' @ (if ds = [] then [] else ''/'' @ join_with ''/'' ds)"
  unfolding e by (cases "ds = []"; simp add: join_with_Cons join_with_append)+

lemma mapper_src_entry:
  assumes cwd: "w_cwd w = absPath cs" "\<forall>s \<in> set cs. plain s"
    and ds: "\<forall>s \<in> set ds. plain s" and fl: "plain file"
    and e: "e = ''./src/'' @ join_with ''/'' (ds @ [file])"
    and nm: "p_name (parse e) \<noteq> ''.''" "p_name (parse e) \<noteq> ''..''"
  shows "generateDTSMapperFile w e =
           [EnsureFile (absPath (cs @ ''dist'' # ds @ [p_name (parse e) @ ''.d.ts''])),
            WriteFile (absPath (cs @ ''dist'' # ds @ [p_name (parse e) @ ''.d.ts'']))
              (''// dev-mode'' @ [CHR 0x0A] @ ''export * from '' @ [CHR 0x27] @
               join_with ''/''
                 (replicate (Suc (length ds)) ''..'' @ ''src'' # ds @ [p_name (parse e)]) @
               [CHR 0x27] @ '';'')
              ''utf-8'']"
    and "join [dirname (absPath (cs @ ''dist'' # ds @ [p_name (parse e) @ ''.d.ts''])),
               join_with ''/''
                 (replicate (Suc (length ds)) ''..'' @ ''src'' # ds @ [p_name (parse e)])] @
         p_ext (parse e) = join [w_cwd w, e]"
    and "join [w_cwd w, e] = absPath (cs @ ''src'' # ds @ [file])"
proof -
  let ?n = "p_name (parse e)"
  let ?d0 = "join_with ''/'' (''.'' # ''src'' # ds)"
  note parts = src_entry_parts[OF ds fl e]
  have f: "file \<noteq> []" "CHR ''/'' \<notin> set file"
    using fl by (simp_all add: plain_def)
  have d0: "?d0 \<noteq> []" "hd ?d0 \<noteq> CHR ''/''"
    by (simp_all add: parts(3))
  have dir: "p_dir (parse e) = ?d0"
    and nx: "?n @ p_ext (parse e) = file"
    and n: "?n \<noteq> []" "CHR ''/'' \<notin> set ?n"
    unfolding parts(1) by (rule parse_rel[OF d0 f])+
  have pn: "plain ?n"
    using n nm by (simp add: plain_def)
  have pdts: "plain (?n @ ''.d.ts'')"
    using n by (rule plain_dts)
  have psrc: "plain ''src''" "plain ''dist''"
    by (simp_all add: plain_def)
  have sf: "\<forall>s \<in> set ds. CHR ''/'' \<notin> set s"
    using ds by (simp add: plain_def)
  have rep: "replace_first (p_dir (parse e)) ''./src'' ''dist'' = join_with ''/'' (''dist'' # ds)"
    unfolding dir parts(3) parts(4) by (rule replace_first_prefix) simp
  \<comment> \<open>the path of the mapping file\<close>
  have dne: "join_with ''/'' (''dist'' # ds) \<noteq> []"
    by (simp add: parts(4))
  have j3: "join_with ''/'' ((''dist'' # ds) @ [?n @ ''.d.ts'']) =
            join_with ''/'' (''dist'' # ds) @ ''/'' @ ?n @ ''.d.ts''"
    using join_with_append[of "''dist'' # ds" "[?n @ ''.d.ts'']" "''/''"] by simp
  have "join [absPath cs, join_with ''/'' (''dist'' # ds), ?n @ ''.d.ts''] =
        join [absPath cs, join_with ''/'' ((''dist'' # ds) @ [?n @ ''.d.ts''])]"
    unfolding j3 using dne n by (simp add: join_def absPath_def)
  also have "\<dots> = absPath (normalizeSegs False cs ((''dist'' # ds) @ [?n @ ''.d.ts'']))"
    using sf n by (intro join_abs[OF cwd(2)]) auto
  also have "\<dots> = absPath (cs @ ''dist'' # ds @ [?n @ ''.d.ts''])"
    using normalizeSegs_plain[of "(''dist'' # ds) @ [?n @ ''.d.ts'']" False cs "[]"] ds pdts psrc
    by simp
  finally have pathName:
    "join [w_cwd w, replace_first (p_dir (parse e)) ''./src'' ''dist'', ?n @ ''.d.ts''] =
       absPath (cs @ ''dist'' # ds @ [?n @ ''.d.ts''])"
    by (simp add: cwd(1) rep)
  \<comment> \<open>the path of the source\<close>
  have "join [absPath cs, e] = absPath (normalizeSegs False cs (''.'' # ''src'' # ds @ [file]))"
    unfolding parts(2) using sf f by (intro join_abs[OF cwd(2)]) auto
  also have "\<dots> = absPath (cs @ ''src'' # ds @ [file])"
    using normalizeSegs_plain[of "''src'' # ds @ [file]" False cs "[]"] ds fl psrc
    by simp
  finally have srcName: "join [w_cwd w, e] = absPath (cs @ ''src'' # ds @ [file])"
    by (simp add: cwd(1))
  \<comment> \<open>their directories and the way from one to the other\<close>
  have pd: "\<forall>s \<in> set (cs @ ''dist'' # ds). plain s"
    and ps: "\<forall>s \<in> set (cs @ ''src'' # ds). plain s"
    using cwd(2) ds psrc by auto
  have dn1: "dirname (absPath (cs @ ''dist'' # ds @ [?n @ ''.d.ts''])) = absPath (cs @ ''dist'' # ds)"
    using dirname_abs[OF _ pd, of "?n @ ''.d.ts''"] n by simp
  have dn2: "dirname (absPath (cs @ ''src'' # ds @ [file])) = absPath (cs @ ''src'' # ds)"
    using dirname_abs[OF _ ps, of "file"] f by simp
  have rel: "relative (w_cwd w) (absPath (cs @ ''dist'' # ds)) (absPath (cs @ ''src'' # ds)) =
               join_with ''/'' (replicate (Suc (length ds)) ''..'' @ ''src'' # ds)"
    by (rule relative_abs[OF cwd(2) ds ds psrc(2) psrc(1)]) simp
  have ref: "join_with ''/'' (replicate (Suc (length ds)) ''..'' @ ''src'' # ds) @ ''/'' @ ?n =
             join_with ''/'' (replicate (Suc (length ds)) ''..'' @ ''src'' # ds @ [?n])"
    using join_with_append[of "replicate (Suc (length ds)) ''..'' @ ''src'' # ds" "[?n]" "''/''"]
    by simp
  show "generateDTSMapperFile w e =
           [EnsureFile (absPath (cs @ ''dist'' # ds @ [?n @ ''.d.ts''])),
            WriteFile (absPath (cs @ ''dist'' # ds @ [?n @ ''.d.ts'']))
              (''// dev-mode'' @ [CHR 0x0A] @ ''export * from '' @ [CHR 0x27] @
               join_with ''/'' (replicate (Suc (length ds)) ''..'' @ ''src'' # ds @ [?n]) @
               [CHR 0x27] @ '';'')
              ''utf-8'']"
    unfolding generateDTSMapperFile_def Let_def pathName srcName dn1 dn2 rel
      join_split[of "CHR ''/''", simplified] ref[symmetric]
    by simp
  show "join [w_cwd w, e] = absPath (cs @ ''src'' # ds @ [file])"
    by (rule srcName)
  \<comment> \<open>the reference, resolved from the directory of the mapping file\<close>
  have "join [absPath (cs @ ''dist'' # ds),
              join_with ''/'' (replicate (Suc (length ds)) ''..'' @ ''src'' # ds @ [?n])] =
        absPath (normalizeSegs False (cs @ ''dist'' # ds)
                   (replicate (Suc (length ds)) ''..'' @ ''src'' # ds @ [?n]))"
    using sf n cwd(2) ds psrc by (intro join_abs) (auto simp: plain_def)
  also have "normalizeSegs False (cs @ ''dist'' # ds)
                   (replicate (Suc (length ds)) ''..'' @ ''src'' # ds @ [?n]) =
             normalizeSegs False cs (''src'' # ds @ [?n])"
  proof -
    have "normalizeSegs False (cs @ ''dist'' # ds)
            (replicate (Suc (length ds)) ''..'' @ ''src'' # ds @ [?n]) =
          normalizeSegs False
            (take (length (cs @ ''dist'' # ds) - Suc (length ds)) (cs @ ''dist'' # ds))
            (''src'' # ds @ [?n])"
      by (rule normalizeSegs_up[OF _ pd]) simp
    moreover have "take (length (cs @ ''dist'' # ds) - Suc (length ds)) (cs @ ''dist'' # ds) = cs"
      by simp
    ultimately show ?thesis
      by (simp only:)
  qed
  also have "\<dots> = cs @ ''src'' # ds @ [?n]"
    using normalizeSegs_plain[of "''src'' # ds @ [?n]" False cs "[]"] ds pn psrc
    by simp
  finally show "join [dirname (absPath (cs @ ''dist'' # ds @ [?n @ ''.d.ts''])),
               join_with ''/'' (replicate (Suc (length ds)) ''..'' @ ''src'' # ds @ [?n])] @
         p_ext (parse e) = join [w_cwd w, e]"
    using absPath_snoc[of "cs @ ''src'' # ds" ?n "p_ext (parse e)"]
    by (simp add: dn1 srcName nx)
qed


lemma writesOf_mapper_length: "length (writesOf [generateDTSMapperFile w e]) = 1"
  by (simp add: writesOf_def generateDTSMapperFile_def Let_def)

lemma writesOf_mappers:
  "writesOf (map (generateDTSMapperFile w) es) =
     concat (map (\<lambda>e. writesOf [generateDTSMapperFile w e]) es)"
  by (induction es) (simp_all add: writesOf_def)


lemma outDir_abs:
  assumes "w_cwd w = absPath cs" "\<forall>s \<in> set cs. plain s"
  shows "outDir w = absPath (cs @ [''dist''])"
proof -
  have "join [absPath cs, join_with ''/'' [''dist'']] = absPath (normalizeSegs False cs [''dist''])"
    by (rule join_abs[OF assms(2)]) simp_all
  then show ?thesis
    by (simp add: outDir_def assms(1))
qed

lemma absPath_append:
  "xs \<noteq> [] \<Longrightarrow> ys \<noteq> [] \<Longrightarrow> absPath (xs @ ys) = absPath xs @ ''/'' @ join_with ''/'' ys"
  by (simp add: absPath_def join_with_append)

lemma mappers_length:
  "length (concat (map (\<lambda>e. writesOf [generateDTSMapperFile w e]) es)) = length es"
  by (induction es) (simp_all add: writesOf_mapper_length)

lemma mapper_member:
  "e \<in> set es \<Longrightarrow> x \<in> set (writesOf [generateDTSMapperFile w e]) \<Longrightarrow>
   x \<in> set (concat (map (\<lambda>e. writesOf [generateDTSMapperFile w e]) es))"
  by auto

text \<open>
  C4, amended: in a fulfilled run without the \<open>optimized\<close> flag, for a package with
  a type configuration at its root, the tasks dispatched write one mapping file for each
  entry of the manifest, in the order of the entries, and the files written in the run
  are these, one write for each entry.  For an entry of the form
  \<open>./src/d1/.../dn/file\<close> (plain segments, in a package whose root is a normalised
  absolute path), whose name, the file name without its last extension, is neither
  \<open>.\<close> nor \<open>..\<close>, the file is written under the output directory at
  \<open>d1/.../dn/name.d.ts\<close>; its content is the comment line and one re-export statement,
  whose reference, resolved from the directory of the mapping file and completed with
  the extension of the entry, is the path of the entry's source.
\<close>

theorem mapping_files_of_a_run_mirror_src_entries:
  assumes "\<not> hasFlag flags ''optimized''"
    and "w_pathExists w (join [w_cwd w, ''tsconfig.json''])"
    and "w_readJson w (join [cwd, ''package.json'']) = Inr pkg"
    and "snd (run w cwd flags) = Inr ()"
    and "es = (case bc_entries (pj_bundler pkg) of None \<Rightarrow> [] | Some l \<Rightarrow> l)"
  shows "writesOf (dispatchedTasks (fst (run w cwd flags))) =
           concat (map (\<lambda>e. writesOf [generateDTSMapperFile w e]) es) \<and>
         mset (written (fst (run w cwd flags))) =
           mset (writesOf (dispatchedTasks (fst (run w cwd flags)))) \<and>
         length (written (fst (run w cwd flags))) = length es \<and>
         (w_cwd w = absPath cs \<and> (\<forall>s \<in> set cs. plain s) \<and> (\<forall>s \<in> set ds. plain s) \<and>
          plain file \<and> e = ''./src/'' @ join_with ''/'' (ds @ [file]) \<and>
          p_name (parse e) \<noteq> ''.'' \<and> p_name (parse e) \<noteq> ''..'' \<longrightarrow>
            writesOf [generateDTSMapperFile w e] =
              [(outDir w @ ''/'' @ join_with ''/'' (ds @ [p_name (parse e) @ ''.d.ts'']),
                ''// dev-mode'' @ [CHR 0x0A] @ ''export * from '' @ [CHR 0x27] @
                join_with ''/''
                  (replicate (Suc (length ds)) ''..'' @ ''src'' # ds @ [p_name (parse e)]) @
                [CHR 0x27] @ '';'')] \<and>
            join [dirname (outDir w @ ''/'' @ join_with ''/'' (ds @ [p_name (parse e) @ ''.d.ts''])),
                  join_with ''/''
                    (replicate (Suc (length ds)) ''..'' @ ''src'' # ds @ [p_name (parse e)])] @
              p_ext (parse e) = join [w_cwd w, e] \<and>
            (e \<in> set es \<longrightarrow>
               (outDir w @ ''/'' @ join_with ''/'' (ds @ [p_name (parse e) @ ''.d.ts'']),
                ''// dev-mode'' @ [CHR 0x0A] @ ''export * from '' @ [CHR 0x27] @
                join_with ''/''
                  (replicate (Suc (length ds)) ''..'' @ ''src'' # ds @ [p_name (parse e)]) @
                [CHR 0x27] @ '';'') \<in> set (written (fst (run w cwd flags)))))"
proof -
  let ?tr = "fst (run w cwd flags)"
  let ?files = "concat (map (\<lambda>e. writesOf [generateDTSMapperFile w e]) es)"
  have ex: "w_pathExists w (tsConfigPath w)"
    using assms(2) by (simp add: tsConfigPath_def)
  have es: "entries pkg = es"
    by (simp add: entries_def assms(5))
  from assms(4) have "snd (prelude w cwd flags pkg) = Inr ()"
    by (auto simp: run_result[OF assms(3)] split: sum.splits)
  then have d: "dispatchedTasks ?tr = runTasks w cwd flags pkg"
    by (simp add: dispatchedTasks_run[OF assms(3)])
  have 1: "writesOf (dispatchedTasks ?tr) = ?files"
    unfolding d using assms(1) ex by (simp add: runTasks_eq writesOf_tasks writesOf_mappers es)
  have 2: "mset (written ?tr) = mset (writesOf (dispatchedTasks ?tr))"
    unfolding d by (rule written_run[OF assms(3,4)])
  have "length (written ?tr) = length ?files"
    using 2 unfolding 1 by (rule mset_eq_length)
  then have 3: "length (written ?tr) = length es"
    by (simp add: mappers_length)
  have s: "set (written ?tr) = set ?files"
    using 2 unfolding 1 by (rule mset_eq_setD)
  have 4: "writesOf [generateDTSMapperFile w e] =
              [(outDir w @ ''/'' @ join_with ''/'' (ds @ [p_name (parse e) @ ''.d.ts'']),
                ''// dev-mode'' @ [CHR 0x0A] @ ''export * from '' @ [CHR 0x27] @
                join_with ''/''
                  (replicate (Suc (length ds)) ''..'' @ ''src'' # ds @ [p_name (parse e)]) @
                [CHR 0x27] @ '';'')] \<and>
            join [dirname (outDir w @ ''/'' @ join_with ''/'' (ds @ [p_name (parse e) @ ''.d.ts''])),
                  join_with ''/''
                    (replicate (Suc (length ds)) ''..'' @ ''src'' # ds @ [p_name (parse e)])] @
              p_ext (parse e) = join [w_cwd w, e] \<and>
            (e \<in> set es \<longrightarrow>
               (outDir w @ ''/'' @ join_with ''/'' (ds @ [p_name (parse e) @ ''.d.ts'']),
                ''// dev-mode'' @ [CHR 0x0A] @ ''export * from '' @ [CHR 0x27] @
                join_with ''/''
                  (replicate (Suc (length ds)) ''..'' @ ''src'' # ds @ [p_name (parse e)]) @
                [CHR 0x27] @ '';'') \<in> set (written ?tr))"
    if a: "w_cwd w = absPath cs \<and> (\<forall>s \<in> set cs. plain s) \<and> (\<forall>s \<in> set ds. plain s) \<and>
          plain file \<and> e = ''./src/'' @ join_with ''/'' (ds @ [file]) \<and>
          p_name (parse e) \<noteq> ''.'' \<and> p_name (parse e) \<noteq> ''..''"
  proof -
    from a have cwd: "w_cwd w = absPath cs" "\<forall>s \<in> set cs. plain s"
      and ds: "\<forall>s \<in> set ds. plain s" and fl: "plain file"
      and e: "e = ''./src/'' @ join_with ''/'' (ds @ [file])"
      and nm: "p_name (parse e) \<noteq> ''.''" "p_name (parse e) \<noteq> ''..''"
      by blast+
    note m = mapper_src_entry[OF cwd ds fl e nm]
    have p: "outDir w @ ''/'' @ join_with ''/'' (ds @ [p_name (parse e) @ ''.d.ts'']) =
             absPath (cs @ ''dist'' # ds @ [p_name (parse e) @ ''.d.ts''])"
      using absPath_append[of "cs @ [''dist'']" "ds @ [p_name (parse e) @ ''.d.ts'']"]
      by (simp add: outDir_abs[OF cwd])
    have f: "writesOf [generateDTSMapperFile w e] =
              [(outDir w @ ''/'' @ join_with ''/'' (ds @ [p_name (parse e) @ ''.d.ts'']),
                ''// dev-mode'' @ [CHR 0x0A] @ ''export * from '' @ [CHR 0x27] @
                join_with ''/''
                  (replicate (Suc (length ds)) ''..'' @ ''src'' # ds @ [p_name (parse e)]) @
                [CHR 0x27] @ '';'')]"
      unfolding p m(1) by (simp add: writesOf_def)
    have r: "join [dirname (outDir w @ ''/'' @ join_with ''/'' (ds @ [p_name (parse e) @ ''.d.ts''])),
                  join_with ''/''
                    (replicate (Suc (length ds)) ''..'' @ ''src'' # ds @ [p_name (parse e)])] @
              p_ext (parse e) = join [w_cwd w, e]"
      unfolding p by (rule m(2))
    have "x \<in> set (written ?tr)" if "e \<in> set es" "writesOf [generateDTSMapperFile w e] = [x]" for x
      unfolding s using that by (intro mapper_member[of e es]) simp_all
    with f r show ?thesis
      by blast
  qed
  from 1 2 3 4 show ?thesis
    by blast
qed

lemma mapper_eval:
  assumes "p_name (parse file) = n" and "p_dir (parse file) = d"
    and "replace_first d ''./src'' ''dist'' = d'"
    and "join [w_cwd w, d', n @ ''.d.ts''] = P" and "join [w_cwd w, file] = S"
    and "join_with ''/'' (split_chr CHR ''/'' (relative (w_cwd w) (dirname P) (dirname S))) = r"
  shows "generateDTSMapperFile w file =
           [EnsureFile P,
            WriteFile P (''// dev-mode'' @ [CHR 0x0A] @ ''export * from '' @ [CHR 0x27] @ r @
                         ''/'' @ n @ [CHR 0x27] @ '';'') ''utf-8'']"
  unfolding generateDTSMapperFile_def Let_def assms ..

lemma example_outDir: "outDir exampleWorld = ''/pkg/dist''"
  by code_simp

theorem mapping_files_of_a_run_mirror_src_entries_witness:
  "length (written (fst (run exampleWorld ''/pkg'' []))) = 2 \<and>
   (''/pkg/dist/presets/foo-preset.d.ts'',
    ''// dev-mode'' @ [CHR 0x0A] @ ''export * from '' @ [CHR 0x27] @
    ''../../src/presets/foo-preset'' @ [CHR 0x27] @ '';'')
     \<in> set (written (fst (run exampleWorld ''/pkg'' []))) \<and>
   join [dirname ''/pkg/dist/presets/foo-preset.d.ts'', ''../../src/presets/foo-preset''] @ ''.ts'' =
     ''/pkg/src/presets/foo-preset.ts''"
proof -
  let ?e = "''./src/presets/foo-preset.ts''"
  have n: "p_name (parse ?e) = ''foo-preset''" and x: "p_ext (parse ?e) = ''.ts''"
    by code_simp+
  have h: "w_cwd exampleWorld = absPath [''pkg''] \<and> (\<forall>s \<in> set [''pkg'']. plain s) \<and>
           (\<forall>s \<in> set [''presets'']. plain s) \<and> plain ''foo-preset.ts'' \<and>
           ?e = ''./src/'' @ join_with ''/'' ([''presets''] @ [''foo-preset.ts'']) \<and>
           p_name (parse ?e) \<noteq> ''.'' \<and> p_name (parse ?e) \<noteq> ''..''"
    unfolding n by (simp add: exampleWorld_def absPath_def plain_def)
  have a: "\<not> hasFlag [] ''optimized''"
    by (simp add: hasFlag_Nil)
  have b: "w_pathExists exampleWorld (join [w_cwd exampleWorld, ''tsconfig.json''])"
    by (simp add: exampleWorld_def)
  have ok: "snd (run exampleWorld ''/pkg'' []) = Inr ()"
    using example_run_fulfilled[of None "[]"] by (simp add: exampleWorld_CI)
  have es: "[''./src/index.ts'', ?e] =
            (case bc_entries (pj_bundler examplePkg) of None \<Rightarrow> [] | Some l \<Rightarrow> l)"
    by (simp add: examplePkg_def)
  note t = mapping_files_of_a_run_mirror_src_entries[OF a b example_manifest ok es,
      of "[''pkg'']" "[''presets'']" "''foo-preset.ts''" ?e]
  have c: "join [w_cwd exampleWorld, ?e] = ''/pkg/src/presets/foo-preset.ts''"
    by code_simp
  from t have len: "length (written (fst (run exampleWorld ''/pkg'' []))) = 2"
    by simp
  note u = t[THEN conjunct2, THEN conjunct2, THEN conjunct2, THEN mp, OF h,
      unfolded n x c example_outDir]
  have j: "join_with ''/'' ([''presets''] @ [''foo-preset'' @ ''.d.ts'']) =
             ''presets/foo-preset.d.ts''"
    "join_with ''/'' (replicate (Suc (length [''presets''])) ''..'' @
        ''src'' # [''presets''] @ [''foo-preset'']) = ''../../src/presets/foo-preset''"
    by simp_all
  from u[unfolded j] len show ?thesis
    by simp
qed

definition bareEntryPkg :: PackageJson where
  "bareEntryPkg = examplePkg\<lparr>pj_bundler := (pj_bundler examplePkg)\<lparr>bc_entries := Some [''src/index.ts'']\<rparr>\<rparr>"

definition sameNamePkg :: PackageJson where
  "sameNamePkg =
     examplePkg\<lparr>pj_bundler := (pj_bundler examplePkg)
       \<lparr>bc_entries := Some [''./src/index.ts'', ''./src/index.tsx'']\<rparr>\<rparr>"

lemma exampleWorldWith_mapper:
  "generateDTSMapperFile (exampleWorldWith pkg) = generateDTSMapperFile exampleWorld"
proof -
  have "w_cwd (exampleWorldWith pkg) = w_cwd exampleWorld"
    by (simp add: exampleWorldWith_def)
  then show ?thesis
    unfolding generateDTSMapperFile_def by simp
qed

lemma exampleWorldWith_written:
  assumes "bc_entries (pj_bundler pkg) = Some es"
  shows "mset (written (fst (run (exampleWorldWith pkg) ''/pkg'' []))) =
         mset (concat (map (\<lambda>e. writesOf [generateDTSMapperFile exampleWorld e]) es))"
proof -
  have ex: "w_pathExists (exampleWorldWith pkg) (tsConfigPath (exampleWorldWith pkg))"
    by (simp add: exampleWorldWith_def exampleWorld_def)
  have "writesOf (runTasks (exampleWorldWith pkg) ''/pkg'' [] pkg) =
        concat (map (\<lambda>e. writesOf [generateDTSMapperFile exampleWorld e]) es)"
    using ex
    by (simp add: runTasks_eq writesOf_tasks hasFlag_Nil writesOf_mappers entries_def assms
        exampleWorldWith_mapper)
  then show ?thesis
    using written_run[OF exampleWorldWith_manifest exampleWorldWith_fulfilled, of pkg "''/pkg''" "[]"]
    by simp
qed

text \<open>
  C4, as stated, fails.  For the entry \<open>src/index.ts\<close>, which has no leading \<open>./\<close>,
  the mapping file is written beside the source and not under the output directory,
  and the module reference in it, \<open>/index\<close>, is not relative.  And for the two entries
  \<open>./src/index.ts\<close> and \<open>./src/index.tsx\<close> there are two writes and one file.
\<close>

theorem entries_off_the_src_layout_counterexample:
  "\<not> hasFlag [] ''optimized'' \<and>
   w_pathExists (exampleWorldWith bareEntryPkg)
     (join [w_cwd (exampleWorldWith bareEntryPkg), ''tsconfig.json'']) \<and>
   outDir (exampleWorldWith bareEntryPkg) = ''/pkg/dist'' \<and>
   bc_entries (pj_bundler bareEntryPkg) = Some [''src/index.ts''] \<and>
   snd (run (exampleWorldWith bareEntryPkg) ''/pkg'' []) = Inr () \<and>
   written (fst (run (exampleWorldWith bareEntryPkg) ''/pkg'' [])) =
     [(''/pkg/src/index.d.ts'',
       ''// dev-mode'' @ [CHR 0x0A] @ ''export * from '' @ [CHR 0x27] @ ''/index'' @
       [CHR 0x27] @ '';'')] \<and>
   bc_entries (pj_bundler sameNamePkg) = Some [''./src/index.ts'', ''./src/index.tsx''] \<and>
   snd (run (exampleWorldWith sameNamePkg) ''/pkg'' []) = Inr () \<and>
   length (written (fst (run (exampleWorldWith sameNamePkg) ''/pkg'' []))) = 2 \<and>
   set (map fst (written (fst (run (exampleWorldWith sameNamePkg) ''/pkg'' [])))) =
     {''/pkg/dist/index.d.ts''}"
proof -
  have m: "generateDTSMapperFile exampleWorld ''src/index.ts'' =
           [EnsureFile ''/pkg/src/index.d.ts'',
            WriteFile ''/pkg/src/index.d.ts''
              (''// dev-mode'' @ [CHR 0x0A] @ ''export * from '' @ [CHR 0x27] @ [] @
               ''/'' @ ''index'' @ [CHR 0x27] @ '';'') ''utf-8'']"
    by (rule mapper_eval[where d = "''src''" and d' = "''src''" and S = "''/pkg/src/index.ts''"])
       code_simp+
  have m1: "generateDTSMapperFile exampleWorld ''./src/index.ts'' =
           [EnsureFile ''/pkg/dist/index.d.ts'',
            WriteFile ''/pkg/dist/index.d.ts''
              (''// dev-mode'' @ [CHR 0x0A] @ ''export * from '' @ [CHR 0x27] @ ''../src'' @
               ''/'' @ ''index'' @ [CHR 0x27] @ '';'') ''utf-8'']"
    by (rule mapper_eval[where d = "''./src''" and d' = "''dist''" and S = "''/pkg/src/index.ts''"])
       code_simp+
  have m2: "generateDTSMapperFile exampleWorld ''./src/index.tsx'' =
           [EnsureFile ''/pkg/dist/index.d.ts'',
            WriteFile ''/pkg/dist/index.d.ts''
              (''// dev-mode'' @ [CHR 0x0A] @ ''export * from '' @ [CHR 0x27] @ ''../src'' @
               ''/'' @ ''index'' @ [CHR 0x27] @ '';'') ''utf-8'']"
    by (rule mapper_eval[where d = "''./src''" and d' = "''dist''" and S = "''/pkg/src/index.tsx''"])
       code_simp+
  have e: "bc_entries (pj_bundler bareEntryPkg) = Some [''src/index.ts'']"
    by (simp add: bareEntryPkg_def)
  have e2: "bc_entries (pj_bundler sameNamePkg) = Some [''./src/index.ts'', ''./src/index.tsx'']"
    by (simp add: sameNamePkg_def)
  have "mset (written (fst (run (exampleWorldWith bareEntryPkg) ''/pkg'' []))) =
        mset [(''/pkg/src/index.d.ts'',
       ''// dev-mode'' @ [CHR 0x0A] @ ''export * from '' @ [CHR 0x27] @ ''/index'' @
       [CHR 0x27] @ '';'')]"
    unfolding exampleWorldWith_written[OF e] by (simp add: m writesOf_def)
  then have w: "written (fst (run (exampleWorldWith bareEntryPkg) ''/pkg'' [])) =
     [(''/pkg/src/index.d.ts'',
       ''// dev-mode'' @ [CHR 0x0A] @ ''export * from '' @ [CHR 0x27] @ ''/index'' @
       [CHR 0x27] @ '';'')]"
    by simp
  let ?x = "(''/pkg/dist/index.d.ts'',
       ''// dev-mode'' @ [CHR 0x0A] @ ''export * from '' @ [CHR 0x27] @ ''../src/index'' @
       [CHR 0x27] @ '';'')"
  have w2: "mset (written (fst (run (exampleWorldWith sameNamePkg) ''/pkg'' []))) = mset [?x, ?x]"
    unfolding exampleWorldWith_written[OF e2] by (simp add: m1 m2 writesOf_def)
  have l: "length (written (fst (run (exampleWorldWith sameNamePkg) ''/pkg'' []))) = 2"
    using mset_eq_length[OF w2] by simp
  have "set (written (fst (run (exampleWorldWith sameNamePkg) ''/pkg'' []))) = {?x}"
    using mset_eq_setD[OF w2] by simp
  then have s: "set (map fst (written (fst (run (exampleWorldWith sameNamePkg) ''/pkg'' [])))) =
     {''/pkg/dist/index.d.ts''}"
    by simp
  have p: "w_pathExists (exampleWorldWith bareEntryPkg)
     (join [w_cwd (exampleWorldWith bareEntryPkg), ''tsconfig.json''])"
    by (simp add: exampleWorldWith_def exampleWorld_def)
  have o: "\<not> hasFlag [] ''optimized''"
    by (simp add: hasFlag_Nil)
  have od: "outDir (exampleWorldWith bareEntryPkg) = ''/pkg/dist''"
    using example_outDir by (simp add: outDir_def exampleWorldWith_def)
  from o p od e exampleWorldWith_fulfilled w e2 exampleWorldWith_fulfilled l s show ?thesis
    by (intro conjI)
qed

end
